theory Spec2Isabelle
  imports Main "HOL-Library.Word"
begin

text \<open>
  A verification of \<open>avx512counters\<close>, the Go program that is to collect the counters of
  the turbo levels for the instruction forms of the AVX-512 extensions. The program
  reads the test files of the Go assembler, one for each extension, and prepares a
  driver program in its work directory. The first part of this theory follows the
  source function by function; the second part states and proves its properties.
\<close>

section \<open>Strings and the string helpers of the Go library\<close>

text \<open>
  A Go string is a sequence of bytes; it is modelled as a \<open>string\<close> (a list of 8-bit
  characters). The tab and the newline are written by their byte values.
\<close>

abbreviation tab :: char where "tab \<equiv> CHR 0x09"
abbreviation newline :: char where "newline \<equiv> CHR 0x0A"

text \<open>
  \<open>strings.Split(s, sep)\<close> for a separator of one byte: one piece more than there are
  separators, so the empty string gives one empty piece.
\<close>

fun split_on :: "char \<Rightarrow> string \<Rightarrow> string list" where
  "split_on c [] = [[]]"
| "split_on c (x # xs) =
     (if x = c then [] # split_on c xs
      else (case split_on c xs of
              [] \<Rightarrow> [[x]]
            | p # ps \<Rightarrow> (x # p) # ps))"

text \<open>
  \<open>strings.TrimSpace\<close> removes the leading and the trailing white space as
  \<open>unicode.IsSpace\<close> defines it. On bytes these are the six ASCII characters and the
  UTF-8 encodings of U+0085, U+00A0, U+1680, U+2000 to U+200A, U+2028, U+2029, U+202F,
  U+205F and U+3000. An ASCII byte never lies inside a longer encoding, and the decoder
  reads a well-formed encoding at either end of the string as that code point, so
  trimming is the removal of these byte sequences at the two ends.
\<close>

definition space_runes :: "string list" where
  "space_runes =
     [[CHR 0x09], [CHR 0x0A], [CHR 0x0B], [CHR 0x0C], [CHR 0x0D], [CHR 0x20],
      [CHR 0xC2, CHR 0x85], [CHR 0xC2, CHR 0xA0],
      [CHR 0xE1, CHR 0x9A, CHR 0x80],
      [CHR 0xE2, CHR 0x80, CHR 0x80], [CHR 0xE2, CHR 0x80, CHR 0x81],
      [CHR 0xE2, CHR 0x80, CHR 0x82], [CHR 0xE2, CHR 0x80, CHR 0x83],
      [CHR 0xE2, CHR 0x80, CHR 0x84], [CHR 0xE2, CHR 0x80, CHR 0x85],
      [CHR 0xE2, CHR 0x80, CHR 0x86], [CHR 0xE2, CHR 0x80, CHR 0x87],
      [CHR 0xE2, CHR 0x80, CHR 0x88], [CHR 0xE2, CHR 0x80, CHR 0x89],
      [CHR 0xE2, CHR 0x80, CHR 0x8A],
      [CHR 0xE2, CHR 0x80, CHR 0xA8], [CHR 0xE2, CHR 0x80, CHR 0xA9],
      [CHR 0xE2, CHR 0x80, CHR 0xAF], [CHR 0xE2, CHR 0x81, CHR 0x9F],
      [CHR 0xE3, CHR 0x80, CHR 0x80]]"

definition starts_with :: "string \<Rightarrow> string \<Rightarrow> bool" where
  "starts_with s p = (take (length p) s = p)"

function strip_front :: "string list \<Rightarrow> string \<Rightarrow> string" where
  "strip_front toks s =
     (case find (\<lambda>t. t \<noteq> [] \<and> starts_with s t) toks of
        None \<Rightarrow> s
      | Some t \<Rightarrow> strip_front toks (drop (length t) s))"
  by pat_completeness auto
termination
proof (relation "measure (\<lambda>(toks, s). length s)")
  show "wf (measure (\<lambda>(toks, s). length s))" by simp
next
  fix toks :: "string list" and s t :: string
  assume "find (\<lambda>t. t \<noteq> [] \<and> starts_with s t) toks = Some t"
  then have "t \<noteq> []" and "starts_with s t"
    by (auto simp: find_Some_iff)
  then have "s \<noteq> []"
    by (auto simp: starts_with_def)
  with \<open>t \<noteq> []\<close> show "((toks, drop (length t) s), (toks, s)) \<in> measure (\<lambda>(toks, s). length s)"
    by simp
qed

definition TrimSpace :: "string \<Rightarrow> string" where
  "TrimSpace s = rev (strip_front (map rev space_runes) (rev (strip_front space_runes s)))"

section \<open>Regular expressions of the Go regexp package\<close>

text \<open>
  The three patterns of the program use literals, character classes, concatenation, the
  greedy \<open>?\<close> on a group, the greedy \<open>+\<close> and the lazy \<open>*?\<close> on a character class, and
  capturing groups. The syntax tree below covers this fragment. All classes but the dot
  are ASCII; the dot matches any character but the newline. The package matches code
  points in UTF-8 where this model matches bytes. The two agree on the three patterns:
  a match starts at an ASCII character and the lazy dots end before a space, and an
  ASCII byte is always the start of a code point.
\<close>

datatype cls =
    Dot
  | PerlDigit
  | PerlWord
  | OneOf string
  | Ranges "(char \<times> char) list"

definition in_range :: "char \<Rightarrow> char \<Rightarrow> char \<Rightarrow> bool" where
  "in_range lo hi c = ((of_char lo :: nat) \<le> of_char c \<and> (of_char c :: nat) \<le> of_char hi)"

fun cls_mem :: "cls \<Rightarrow> char \<Rightarrow> bool" where
  "cls_mem Dot c = (c \<noteq> newline)"
| "cls_mem PerlDigit c = in_range CHR ''0'' CHR ''9'' c"
| "cls_mem PerlWord c =
     (in_range CHR ''0'' CHR ''9'' c \<or> in_range CHR ''A'' CHR ''Z'' c \<or>
      in_range CHR ''a'' CHR ''z'' c \<or> c = CHR ''_'')"
| "cls_mem (OneOf cs) c = (c \<in> set cs)"
| "cls_mem (Ranges rs) c = list_ex (\<lambda>(lo, hi). in_range lo hi c) rs"

datatype re =
    Eps
  | Lit char
  | Cls cls
  | Seq re re
  | Quest re
  | Plus cls
  | LazyStar cls
  | Cap nat re

fun cat :: "re list \<Rightarrow> re" where
  "cat [] = Eps"
| "cat [r] = r"
| "cat (r # rs) = Seq r (cat rs)"

fun num_subexp :: "re \<Rightarrow> nat" where
  "num_subexp (Seq a b) = num_subexp a + num_subexp b"
| "num_subexp (Quest a) = num_subexp a"
| "num_subexp (Cap i a) = Suc (num_subexp a)"
| "num_subexp _ = 0"

text \<open>
  The package returns the leftmost match and, among the matches that start there, the
  one a backtracking search finds first. \<open>bt\<close> is that search: it matches a stack of
  pending items against the rest of the input, \<open>pos\<close> is the offset of the rest in the
  whole input and \<open>caps\<close> holds the offsets of the groups closed so far. A greedy
  operator tries its operand before the continuation, a lazy one the continuation first.
\<close>

datatype frame = Match re | Close nat nat

type_synonym caps = "nat \<rightharpoonup> nat \<times> nat"

fun re_weight :: "re \<Rightarrow> nat" where
  "re_weight (Seq a b) = Suc (re_weight a + re_weight b)"
| "re_weight (Quest a) = Suc (re_weight a)"
| "re_weight (Cap i a) = Suc (Suc (re_weight a))"
| "re_weight _ = 1"

fun frame_weight :: "frame \<Rightarrow> nat" where
  "frame_weight (Match r) = re_weight r"
| "frame_weight (Close i b) = 1"

function bt :: "frame list \<Rightarrow> string \<Rightarrow> nat \<Rightarrow> caps \<Rightarrow> (nat \<times> caps) option" where
  "bt [] s pos caps = Some (pos, caps)"
| "bt (Close i b # k) s pos caps = bt k s pos (caps(i \<mapsto> (b, pos)))"
| "bt (Match Eps # k) s pos caps = bt k s pos caps"
| "bt (Match (Lit c) # k) [] pos caps = None"
| "bt (Match (Lit c) # k) (x # xs) pos caps =
     (if x = c then bt k xs (Suc pos) caps else None)"
| "bt (Match (Cls c) # k) [] pos caps = None"
| "bt (Match (Cls c) # k) (x # xs) pos caps =
     (if cls_mem c x then bt k xs (Suc pos) caps else None)"
| "bt (Match (Seq a b) # k) s pos caps = bt (Match a # Match b # k) s pos caps"
| "bt (Match (Quest a) # k) s pos caps =
     (case bt (Match a # k) s pos caps of
        Some r \<Rightarrow> Some r
      | None \<Rightarrow> bt k s pos caps)"
| "bt (Match (Plus c) # k) [] pos caps = None"
| "bt (Match (Plus c) # k) (x # xs) pos caps =
     (if cls_mem c x
      then (case bt (Match (Plus c) # k) xs (Suc pos) caps of
              Some r \<Rightarrow> Some r
            | None \<Rightarrow> bt k xs (Suc pos) caps)
      else None)"
| "bt (Match (LazyStar c) # k) [] pos caps = bt k [] pos caps"
| "bt (Match (LazyStar c) # k) (x # xs) pos caps =
     (case bt k (x # xs) pos caps of
        Some r \<Rightarrow> Some r
      | None \<Rightarrow> if cls_mem c x then bt (Match (LazyStar c) # k) xs (Suc pos) caps else None)"
| "bt (Match (Cap i a) # k) s pos caps = bt (Match a # Close i pos # k) s pos caps"
  by pat_completeness auto
termination
  by (relation "measures [\<lambda>(k, s, pos, caps). length s,
                          \<lambda>(k, s, pos, caps). sum_list (map frame_weight k)]") auto

text \<open>The search for the leftmost start: offset 0 first, then each later offset.\<close>

fun find_from :: "re \<Rightarrow> string \<Rightarrow> nat \<Rightarrow> (nat \<times> nat \<times> caps) option" where
  "find_from r [] pos =
     (case bt [Match r] [] pos Map.empty of
        Some (e, caps) \<Rightarrow> Some (pos, e, caps)
      | None \<Rightarrow> None)"
| "find_from r (x # xs) pos =
     (case bt [Match r] (x # xs) pos Map.empty of
        Some (e, caps) \<Rightarrow> Some (pos, e, caps)
      | None \<Rightarrow> find_from r xs (Suc pos))"

definition substr :: "string \<Rightarrow> nat \<Rightarrow> nat \<Rightarrow> string" where
  "substr s b e = take (e - b) (drop b s)"

definition MatchString :: "re \<Rightarrow> string \<Rightarrow> bool" where
  "MatchString r s = (find_from r s 0 \<noteq> None)"

text \<open>
  \<open>FindStringSubmatch\<close>: no match is nil (\<open>None\<close>); a match is the slice of the matched
  text followed by one slice for each group, empty for a group that took no part.
\<close>

definition FindStringSubmatch :: "re \<Rightarrow> string \<Rightarrow> string list option" where
  "FindStringSubmatch r s =
     (case find_from r s 0 of
        None \<Rightarrow> None
      | Some (b, e, caps) \<Rightarrow>
          Some (substr s b e #
                map (\<lambda>i. case caps i of None \<Rightarrow> [] | Some (b', e') \<Rightarrow> substr s b' e')
                    [1 ..< Suc (num_subexp r)]))"

section \<open>The patterns of the program\<close>

text \<open>The optional displacement \<open>(?:-?\d+)?\<close> that opens both operand patterns.\<close>

definition dispRE :: re where
  "dispRE = Quest (Seq (Quest (Lit CHR ''-'')) (Plus PerlDigit))"

text \<open>\<open>(?:-?\d+)?\(\w+\)(?:\(\w+\*[1248]\))?\<close>\<close>

definition memArgRE_pattern :: re where
  "memArgRE_pattern =
     cat [dispRE, Lit CHR ''('', Plus PerlWord, Lit CHR '')'',
          Quest (cat [Lit CHR ''('', Plus PerlWord, Lit CHR ''*'', Cls (OneOf ''1248''),
                      Lit CHR '')''])]"

text \<open>\<open>(?:-?\d+)?\(\w+\)\(([XYZ])\d+\*[1248]\)\<close>\<close>

definition vmemArgRE_pattern :: re where
  "vmemArgRE_pattern =
     cat [dispRE, Lit CHR ''('', Plus PerlWord, Lit CHR '')'',
          Lit CHR ''('', Cap 1 (Cls (OneOf ''XYZ'')), Plus PerlDigit, Lit CHR ''*'',
          Cls (OneOf ''1248''), Lit CHR '')'']"

text \<open>\<open>\t(.*?) (.*?) // [0-9a-f]+\<close>, with \<open>hexC\<close> for the class \<open>[0-9a-f]\<close>.\<close>

abbreviation hexC :: cls where
  "hexC \<equiv> Ranges [(CHR ''0'', CHR ''9''), (CHR ''a'', CHR ''f'')]"

definition lineRE_pattern :: re where
  "lineRE_pattern =
     cat [Lit tab, Cap 1 (LazyStar Dot), Lit CHR '' '', Cap 2 (LazyStar Dot),
          Lit CHR '' '', Lit CHR ''/'', Lit CHR ''/'', Lit CHR '' '', Plus hexC]"

section \<open>The fixture scanner\<close>

record testLine =
  op :: string
  args :: "string list"
  text_ :: string

text \<open>
  The two errors that \<open>scan\<close> stores, with the operands of their format strings:
  \<open>"%s: unexpected EOF (expected RET instruction)"\<close> takes the file name, and
  \<open>"%s: unexpected %q line (does not match pattern)"\<close> the file name and the line.
\<close>

datatype scan_error =
    UnexpectedEOF string
  | UnexpectedLine string string

text \<open>An error of the operating system; \<open>os.IsNotExist\<close> tells the first kind.\<close>

datatype os_error =
    ErrNotExist string
  | ErrOther string

fun error_message :: "os_error \<Rightarrow> string" where
  "error_message (ErrNotExist m) = m"
| "error_message (ErrOther m) = m"

fun IsNotExist :: "os_error option \<Rightarrow> bool" where
  "IsNotExist (Some (ErrNotExist m)) = True"
| "IsNotExist _ = False"

text \<open>A run-time panic ends the program: no caller of this program recovers.\<close>

datatype panic =
    IndexOutOfRange
  | NilDereference

record testFileScanner =
  filename :: string
  lineRE :: "re option"
  lines :: "string list"
  line :: testLine
  err :: "scan_error option"

text \<open>The composite literal \<open>testFileScanner{filename: filename}\<close>.\<close>

definition new_scanner :: "string \<Rightarrow> testFileScanner" where
  "new_scanner fn =
     \<lparr>filename = fn, lineRE = None, lines = [],
      line = \<lparr>op = [], args = [], text_ = []\<rparr>, err = None\<rparr>"

text \<open>
  The loop of \<open>init\<close> reads \<open>s.lines[0]\<close> in its condition before every step; on the
  empty slice that read is out of range.
\<close>

fun skip_header :: "string list \<Rightarrow> panic + string list" where
  "skip_header [] = Inl IndexOutOfRange"
| "skip_header (l # ls) =
     (if length l = 0 \<or> l ! 0 \<noteq> tab then skip_header ls else Inr (l # ls))"

definition testFileScanner_init ::
  "(string \<Rightarrow> os_error + string) \<Rightarrow> testFileScanner
     \<Rightarrow> panic + (os_error option \<times> testFileScanner)" where
  "testFileScanner_init readFile s =
     (case readFile (filename s) of
        Inl e \<Rightarrow> Inr (Some e, s)
      | Inr data \<Rightarrow>
          (case skip_header (split_on newline data) of
             Inl p \<Rightarrow> Inl p
           | Inr ls \<Rightarrow> Inr (None, s\<lparr>lineRE := Some lineRE_pattern, lines := ls\<rparr>)))"

definition sentinel :: string where
  "sentinel = tab # ''RET''"

definition decode_line :: "string list \<Rightarrow> testLine" where
  "decode_line m =
     \<lparr>op = m ! 1, args = map TrimSpace (split_on CHR '','' (m ! 2)), text_ = m ! 0\<rparr>"

definition scan :: "testFileScanner \<Rightarrow> panic + (bool \<times> testFileScanner)" where
  "scan s =
     (if err s \<noteq> None then Inr (False, s)
      else if length (lines s) = 0
      then Inr (False, s\<lparr>err := Some (UnexpectedEOF (filename s))\<rparr>)
      else if hd (lines s) = sentinel then Inr (False, s)
      else (case lineRE s of
              None \<Rightarrow> Inl NilDereference
            | Some r \<Rightarrow>
                (case FindStringSubmatch r (hd (lines s)) of
                   None \<Rightarrow>
                     Inr (False, s\<lparr>err := Some (UnexpectedLine (filename s) (hd (lines s)))\<rparr>)
                 | Some m \<Rightarrow>
                     Inr (True, s\<lparr>lines := tl (lines s), line := decode_line m\<rparr>))))"

section \<open>The collector\<close>

record iformStats =
  ext :: string
  iform :: string
  level0 :: "64 word"
  level1 :: "64 word"
  level2 :: "64 word"

record current_state =
  extension :: string
  scanner :: testFileScanner

text \<open>
  The last three fields are of type \<open>uint\<close>; the program measures AVX-512 code, so it
  runs where \<open>uint\<close> has 64 bits.
\<close>

record collector =
  memArgRE :: "re option"
  vmemArgRE :: "re option"
  testDir :: string
  availableExt :: "string \<rightharpoonup> bool"
  stats :: "iformStats list"
  current :: current_state
  extensions :: "string list"
  perfTool :: string
  workDir :: string
  iformSpanSize :: "64 word"
  loopCount :: "64 word"
  perfRounds :: "64 word"

text \<open>
  The file system is a state of any type \<open>'w\<close>, and the calls of the program into the
  \<open>os\<close>, \<open>ioutil\<close> and \<open>filepath\<close> packages are the fields of an interface.
\<close>

record 'w os_iface =
  ReadFile :: "'w \<Rightarrow> string \<Rightarrow> os_error + string"
  Stat :: "'w \<Rightarrow> string \<Rightarrow> os_error option"
  Mkdir :: "'w \<Rightarrow> string \<Rightarrow> nat \<Rightarrow> os_error option \<times> 'w"
  WriteFile :: "'w \<Rightarrow> string \<Rightarrow> string \<Rightarrow> nat \<Rightarrow> os_error option \<times> 'w"
  Join :: "string list \<Rightarrow> string"
  Abs :: "'w \<Rightarrow> string \<Rightarrow> os_error + string"
  GOROOT :: "'w \<Rightarrow> string"
  ReadDir :: "'w \<Rightarrow> string \<Rightarrow> os_error + string list"
  Chdir :: "'w \<Rightarrow> string \<Rightarrow> os_error option \<times> 'w"

definition fileExists :: "'w os_iface \<Rightarrow> 'w \<Rightarrow> string \<Rightarrow> bool" where
  "fileExists sys w name = (\<not> IsNotExist (Stat sys w name))"

definition collector_init :: "collector \<Rightarrow> os_error option \<times> collector" where
  "collector_init c =
     (None, c\<lparr>memArgRE := Some memArgRE_pattern, vmemArgRE := Some vmemArgRE_pattern,
               availableExt := Map.empty\<rparr>)"

subsection \<open>validateFlags\<close>

datatype flag_error =
    UnavailableExtension string
  | NoExtensions
  | EmptyPerf
  | ZeroIformSpanSize
  | ZeroLoopCount
  | ZeroPerfRounds

text \<open>Reading a Go map at a key it does not hold gives the zero value, \<open>false\<close>.\<close>

definition available :: "(string \<rightharpoonup> bool) \<Rightarrow> string \<Rightarrow> bool" where
  "available m e = (case m e of None \<Rightarrow> False | Some b \<Rightarrow> b)"

fun check_extensions :: "(string \<rightharpoonup> bool) \<Rightarrow> string list \<Rightarrow> flag_error option" where
  "check_extensions m [] = None"
| "check_extensions m (e # es) =
     (if \<not> available m e then Some (UnavailableExtension e) else check_extensions m es)"

definition validateFlags :: "collector \<Rightarrow> flag_error option" where
  "validateFlags c =
     (case check_extensions (availableExt c) (extensions c) of
        Some e \<Rightarrow> Some e
      | None \<Rightarrow>
          if length (extensions c) = 0 then Some NoExtensions
          else if perfTool c = [] then Some EmptyPerf
          else if iformSpanSize c = 0 then Some ZeroIformSpanSize
          else if loopCount c = 0 then Some ZeroLoopCount
          else if perfRounds c = 0 then Some ZeroPerfRounds
          else None)"

subsection \<open>collectCounters\<close>

definition evaluateCurrent :: "collector \<Rightarrow> iformStats list \<times> os_error option" where
  "evaluateCurrent c = ([], None)"

definition skip_message :: "string \<Rightarrow> os_error \<Rightarrow> string" where
  "skip_message e er =
     ''skip '' @ e @ '': can'' @ [CHR 0x27] @ ''t scan test file: '' @ error_message er"

definition failed_message :: "string \<Rightarrow> os_error \<Rightarrow> string" where
  "failed_message e er = ''failed '' @ e @ '': '' @ error_message er"

text \<open>
  The loop over \<open>c.extensions\<close>, one extension a step. The second component of the
  state is the log, the messages of \<open>log.Printf\<close> in order.
\<close>

fun collect_loop ::
  "'w os_iface \<Rightarrow> 'w \<Rightarrow> string list \<Rightarrow> collector \<times> string list
     \<Rightarrow> panic + (collector \<times> string list)" where
  "collect_loop sys w [] (c, lg) = Inr (c, lg)"
| "collect_loop sys w (e # es) (c, lg) =
     (let fn = Join sys [testDir c, e @ ''.s''];
          c1 = c\<lparr>current := \<lparr>extension = e, scanner = new_scanner fn\<rparr>\<rparr>
      in case testFileScanner_init (ReadFile sys w) (scanner (current c1)) of
           Inl p \<Rightarrow> Inl p
         | Inr (Some er, sc) \<Rightarrow>
             collect_loop sys w es
               (c1\<lparr>current := (current c1)\<lparr>scanner := sc\<rparr>\<rparr>, lg @ [skip_message e er])
         | Inr (None, sc) \<Rightarrow>
             (let c2 = c1\<lparr>current := (current c1)\<lparr>scanner := sc\<rparr>\<rparr>
              in case evaluateCurrent c2 of
                   (st, Some er) \<Rightarrow> collect_loop sys w es (c2, lg @ [failed_message e er])
                 | (st, None) \<Rightarrow> collect_loop sys w es (c2\<lparr>stats := stats c2 @ st\<rparr>, lg)))"

definition collectCounters ::
  "'w os_iface \<Rightarrow> 'w \<Rightarrow> collector
     \<Rightarrow> panic + (os_error option \<times> collector \<times> string list)" where
  "collectCounters sys w c =
     (case collect_loop sys w (extensions c) (c, []) of
        Inl p \<Rightarrow> Inl p
      | Inr (c', lg) \<Rightarrow> Inr (None, c', lg))"

subsection \<open>prepareWorkDir\<close>

text \<open>
  \<open>%d\<close> of \<open>fmt.Sprintf\<close> for an unsigned value: the decimal digits, most
  significant first.
\<close>

definition digit_char :: "nat \<Rightarrow> char" where
  "digit_char d = ''0123456789'' ! d"

function fmt_d :: "nat \<Rightarrow> string" where
  "fmt_d n = (if n < 10 then [digit_char n] else fmt_d (n div 10) @ [digit_char (n mod 10)])"
  by pat_completeness auto
termination
  by (relation "measure (\<lambda>n. n)") auto

declare fmt_d.simps [simp del]

text \<open>
  The text of the template, line by line: every line follows a newline and opens with
  its tabs. The verb \<open>%d\<close> stands between the head and the tail.
\<close>

definition template_line :: "nat \<Rightarrow> string \<Rightarrow> string" where
  "template_line k s = newline # replicate k tab @ s"

definition template_head :: string where
  "template_head =
     template_line 2 ''// Code generated by avx512counters. DO NOT EDIT.'' @
     template_line 2 ''package main'' @
     template_line 2 ''func avx512routine(*[1024]byte)'' @
     template_line 2 ''func main() {'' @
     template_line 3 ''var memory [1024]byte'' @
     template_line 3 ''for i := 0; i < ''"

definition template_tail :: string where
  "template_tail =
     ''; i++ {'' @
     template_line 4 ''// Fill memory argument with some values.'' @
     template_line 4 ''for i := range memory {'' @
     template_line 5 ''memory[i] = byte(i)'' @
     template_line 4 ''}'' @
     template_line 4 ''avx512routine(&memory)'' @
     template_line 3 ''}'' @
     template_line 2 ''}''"

definition mainFileContents :: "64 word \<Rightarrow> string" where
  "mainFileContents n = template_head @ fmt_d (unat n) @ template_tail"

text \<open>The permissions are the octal 0700 and 0666 of the source.\<close>

definition prepareWorkDir ::
  "'w os_iface \<Rightarrow> collector \<Rightarrow> 'w \<Rightarrow> os_error option \<times> 'w" where
  "prepareWorkDir sys c w =
     (let mainFile = Join sys [workDir c, ''main.go''];
          contents = mainFileContents (loopCount c)
      in if \<not> fileExists sys w (workDir c)
         then (case Mkdir sys w (workDir c) 448 of
                 (Some e, w') \<Rightarrow> (Some e, w')
               | (None, w') \<Rightarrow> WriteFile sys w' mainFile contents 438)
         else WriteFile sys w mainFile contents 438)"

subsection \<open>The program that the template spells\<close>

text \<open>
  The emitted \<open>main\<close> with the bound \<open>n\<close> in the place of \<open>%d\<close>. The buffer is a list of
  bytes, \<open>avx512routine\<close> is any function on the buffer (it gets a pointer to it), and
  the state records the buffer that each call of the routine received. The counter of
  the outer loop is an \<open>int\<close> of 64 bits that takes the values from 0 to \<open>n\<close>; it is a
  natural number here, which is the same for every bound below \<open>2 ^ 63\<close>, and the
  properties of a run are stated for these bounds.
\<close>

type_synonym buffer = "8 word list"

record probe_state =
  memory :: buffer
  calls :: "buffer list"






subsection \<open>The other steps and main\<close>

text \<open>\<open>strings.TrimSuffix\<close>\<close>

definition TrimSuffix :: "string \<Rightarrow> string \<Rightarrow> string" where
  "TrimSuffix s suffix =
     (if length suffix \<le> length s \<and> drop (length s - length suffix) s = suffix
      then take (length s - length suffix) s else s)"

text \<open>
  The values of the six flags after \<open>flag.Parse\<close> has returned (on a command line that
  it rejects it ends the program itself), and their defaults.
\<close>

record flag_values =
  flag_extensions :: string
  flag_perf :: string
  flag_workDir :: string
  flag_iformSpanSize :: "64 word"
  flag_loopCount :: "64 word"
  flag_perfRounds :: "64 word"

definition default_flags :: flag_values where
  "default_flags =
     \<lparr>flag_extensions = ''avx512f,avx512dq,avx512cd,avx512bw'', flag_perf = ''perf'',
      flag_workDir = ''./avx512counters-workdir'', flag_iformSpanSize = 100,
      flag_loopCount = 1000000, flag_perfRounds = 1\<rparr>"

text \<open>
  The errors that a step can hand to \<open>main\<close>: \<open>LocateError\<close> carries the directory of
  \<open>"can't locate AVX-512 testdata: %s doesn't exist"\<close>, and \<open>ExpandError\<close> the error of
  \<open>"expand -workDir: %v"\<close>.
\<close>

datatype step_error =
    LocateError string
  | OsError os_error
  | ExpandError os_error
  | FlagError flag_error

text \<open>
  The state of the program: the collector, the file system and the log. The declaration
  \<open>var c collector\<close> gives every field its zero value. A nil map reads like an empty one,
  and the one step that writes to the map runs after \<open>init\<close> has made it.
\<close>

type_synonym 'w prog = "collector \<times> 'w \<times> string list"

type_synonym 'w step = "'w prog \<Rightarrow> panic + (step_error option \<times> 'w prog)"

definition zero_collector :: collector where
  "zero_collector =
     \<lparr>memArgRE = None, vmemArgRE = None, testDir = [], availableExt = Map.empty,
      stats = [], current = \<lparr>extension = [], scanner = new_scanner []\<rparr>,
      extensions = [], perfTool = [], workDir = [],
      iformSpanSize = 0, loopCount = 0, perfRounds = 0\<rparr>"

definition step_init :: "'w step" where
  "step_init =
     (\<lambda>(c, w, lg).
        case collector_init c of
          (e, c') \<Rightarrow> Inr (map_option OsError e, (c', w, lg)))"

definition step_locateTestDir :: "'w os_iface \<Rightarrow> 'w step" where
  "step_locateTestDir sys =
     (\<lambda>(c, w, lg).
        let c' = c\<lparr>testDir := Join sys [GOROOT sys w, ''src'', ''cmd'', ''asm'', ''internal'',
                                          ''asm'', ''testdata'', ''avx512enc'']\<rparr>
        in if \<not> fileExists sys w (testDir c')
           then Inr (Some (LocateError (testDir c')), (c', w, lg))
           else Inr (None, (c', w, lg)))"

definition step_readExtensions :: "'w os_iface \<Rightarrow> 'w step" where
  "step_readExtensions sys =
     (\<lambda>(c, w, lg).
        case ReadDir sys w (testDir c) of
          Inl e \<Rightarrow> Inr (Some (OsError e), (c, w, lg))
        | Inr files \<Rightarrow>
            Inr (None,
                 (c\<lparr>availableExt := foldl (\<lambda>m f. m(TrimSuffix f ''.s'' \<mapsto> True))
                                        (availableExt c) files\<rparr>, w, lg)))"

definition step_parseFlags :: "'w os_iface \<Rightarrow> flag_values \<Rightarrow> 'w step" where
  "step_parseFlags sys fl =
     (\<lambda>(c, w, lg).
        let c1 = c\<lparr>perfTool := flag_perf fl, workDir := flag_workDir fl,
                   iformSpanSize := flag_iformSpanSize fl, loopCount := flag_loopCount fl,
                   perfRounds := flag_perfRounds fl,
                   extensions := extensions c @
                                 map TrimSpace (split_on CHR '','' (flag_extensions fl))\<rparr>
        in case Abs sys w (workDir c1) of
             Inl e \<Rightarrow> Inr (Some (ExpandError e), (c1, w, lg))
           | Inr absWorkDir \<Rightarrow> Inr (None, (c1\<lparr>workDir := absWorkDir\<rparr>, w, lg)))"

definition step_validateFlags :: "'w step" where
  "step_validateFlags =
     (\<lambda>(c, w, lg). Inr (map_option FlagError (validateFlags c), (c, w, lg)))"

definition step_prepareWorkDir :: "'w os_iface \<Rightarrow> 'w step" where
  "step_prepareWorkDir sys =
     (\<lambda>(c, w, lg).
        case prepareWorkDir sys c w of
          (e, w') \<Rightarrow> Inr (map_option OsError e, (c, w', lg)))"

definition step_visitWorkDir :: "'w os_iface \<Rightarrow> 'w step" where
  "step_visitWorkDir sys =
     (\<lambda>(c, w, lg).
        case Chdir sys w (workDir c) of
          (e, w') \<Rightarrow> Inr (map_option OsError e, (c, w', lg)))"

definition step_collectCounters :: "'w os_iface \<Rightarrow> 'w step" where
  "step_collectCounters sys =
     (\<lambda>(c, w, lg).
        case collectCounters sys w c of
          Inl p \<Rightarrow> Inl p
        | Inr (e, c', lg') \<Rightarrow> Inr (map_option OsError e, (c', w, lg @ lg')))"

text \<open>
  The loop of \<open>main\<close>: the first step that returns an error ends the program through
  \<open>log.Fatalf\<close> with the name of the step and the error, and no later step runs.
\<close>

datatype 'w outcome =
    Fatal string step_error "'w prog"
  | Panicked panic
  | Returned "'w prog"

fun run_steps :: "(string \<times> 'w step) list \<Rightarrow> 'w prog \<Rightarrow> 'w outcome" where
  "run_steps [] st = Returned st"
| "run_steps ((name, fn) # steps) st =
     (case fn st of
        Inl p \<Rightarrow> Panicked p
      | Inr (Some e, st') \<Rightarrow> Fatal name e st'
      | Inr (None, st') \<Rightarrow> run_steps steps st')"

definition later_steps :: "'w os_iface \<Rightarrow> (string \<times> 'w step) list" where
  "later_steps sys =
     [(''prepare work dir'', step_prepareWorkDir sys),
      (''visit work dir'', step_visitWorkDir sys),
      (''collect counters'', step_collectCounters sys)]"

definition main_steps :: "'w os_iface \<Rightarrow> flag_values \<Rightarrow> (string \<times> 'w step) list" where
  "main_steps sys fl =
     [(''init collector'', step_init),
      (''locate test dir'', step_locateTestDir sys),
      (''read extensions'', step_readExtensions sys),
      (''parse command-line args'', step_parseFlags sys fl),
      (''validate command-line args'', step_validateFlags)] @ later_steps sys"

definition main :: "'w os_iface \<Rightarrow> flag_values \<Rightarrow> 'w \<Rightarrow> 'w outcome" where
  "main sys fl w = run_steps (main_steps sys fl) (zero_collector, w, [])"

section \<open>Notions used to state the properties\<close>

text \<open>A line that begins with a tab, the test of the loop in \<open>init\<close>.\<close>

definition tab_initial :: "string \<Rightarrow> bool" where
  "tab_initial l = (l \<noteq> [] \<and> l ! 0 = tab)"

text \<open>
  The states of a scanner that \<open>init\<close> has set up and that only \<open>scan\<close> has changed
  since: the pattern is compiled, and a stored error is the one \<open>scan\<close> stores for the
  lines that are left.
\<close>

definition scanner_ok :: "testFileScanner \<Rightarrow> bool" where
  "scanner_ok s =
     (lineRE s = Some lineRE_pattern \<and>
      (case err s of
         None \<Rightarrow> True
       | Some (UnexpectedEOF f) \<Rightarrow> f = filename s \<and> lines s = []
       | Some (UnexpectedLine f l) \<Rightarrow>
           f = filename s \<and> lines s \<noteq> [] \<and> hd (lines s) = l \<and> l \<noteq> sentinel \<and>
           FindStringSubmatch lineRE_pattern l = None))"

text \<open>A scanner of the file \<open>avx512f.s\<close> after \<open>init\<close>, with the given lines left.\<close>

definition example_scanner :: "string list \<Rightarrow> testFileScanner" where
  "example_scanner ls = (new_scanner ''avx512f.s'')\<lparr>lineRE := Some lineRE_pattern, lines := ls\<rparr>"

text \<open>
  The language of a pattern: the strings it matches as a whole, whatever the order in
  which a search tries them. \<open>flang\<close> is the language of a stack of pending items, and
  \<open>pm L s\<close> says that some prefix of \<open>s\<close> is in \<open>L\<close>.
\<close>

definition conc :: "string set \<Rightarrow> string set \<Rightarrow> string set" where
  "conc A B = {u @ v | u v. u \<in> A \<and> v \<in> B}"

definition plus_lang :: "cls \<Rightarrow> string set" where
  "plus_lang c = {w. w \<noteq> [] \<and> (\<forall>x \<in> set w. cls_mem c x)}"

definition star_lang :: "cls \<Rightarrow> string set" where
  "star_lang c = {w. \<forall>x \<in> set w. cls_mem c x}"

fun lang :: "re \<Rightarrow> string set" where
  "lang Eps = {[]}"
| "lang (Lit c) = {[c]}"
| "lang (Cls c) = {[x] | x. cls_mem c x}"
| "lang (Seq a b) = conc (lang a) (lang b)"
| "lang (Quest a) = insert [] (lang a)"
| "lang (Plus c) = plus_lang c"
| "lang (LazyStar c) = star_lang c"
| "lang (Cap i a) = lang a"

fun flang :: "frame list \<Rightarrow> string set" where
  "flang [] = {[]}"
| "flang (Match r # k) = conc (lang r) (flang k)"
| "flang (Close i b # k) = flang k"

definition pm :: "string set \<Rightarrow> string \<Rightarrow> bool" where
  "pm L s = (\<exists>u v. s = u @ v \<and> u \<in> L)"

text \<open>The two tails of the line pattern: the comment, and the operands with the comment.\<close>

definition commentRE :: re where
  "commentRE = cat [Lit CHR '' '', Lit CHR ''/'', Lit CHR ''/'', Lit CHR '' '', Plus hexC]"

definition operandsRE :: re where
  "operandsRE = Seq (Lit CHR '' '') (Seq (Cap 2 (LazyStar Dot)) commentRE)"

text \<open>
  A fixture on which \<open>init\<close> returns: the file of the extension cannot be read, or one
  of its lines begins with a tab.
\<close>

definition fixture_ok :: "'w os_iface \<Rightarrow> 'w \<Rightarrow> string \<Rightarrow> string \<Rightarrow> bool" where
  "fixture_ok sys w dir e =
     (case ReadFile sys w (Join sys [dir, e @ ''.s'']) of
        Inl er \<Rightarrow> True
      | Inr data \<Rightarrow> list_ex tab_initial (split_on newline data))"

text \<open>The messages for the extensions whose file cannot be read, in order.\<close>

definition skip_log :: "'w os_iface \<Rightarrow> 'w \<Rightarrow> string \<Rightarrow> string list \<Rightarrow> string list" where
  "skip_log sys w dir es =
     concat (map (\<lambda>e. case ReadFile sys w (Join sys [dir, e @ ''.s'']) of
                          Inl er \<Rightarrow> [skip_message e er]
                        | Inr data \<Rightarrow> []) es)"

text \<open>
  A file system for the examples: a map from paths to contents, where a path that is
  not in the map does not exist, and the elements of a path are joined by a slash. Every
  directory lists the two fixture files.
\<close>

definition mem_sys :: "(string \<rightharpoonup> string) os_iface" where
  "mem_sys =
     \<lparr>ReadFile = (\<lambda>w p. case w p of
                     None \<Rightarrow> Inl (ErrNotExist (''open '' @ p @ '': no such file or directory''))
                   | Some d \<Rightarrow> Inr d),
      Stat = (\<lambda>w p. case w p of
                 None \<Rightarrow> Some (ErrNotExist (''stat '' @ p @ '': no such file or directory''))
               | Some d \<Rightarrow> None),
      Mkdir = (\<lambda>w p perm. (None, w)),
      WriteFile = (\<lambda>w p d perm. (None, w(p \<mapsto> d))),
      Join = (\<lambda>ps. foldr (\<lambda>p r. if r = [] then p else p @ ''/'' @ r) ps []),
      Abs = (\<lambda>w p. Inr (''/home/'' @ p)),
      GOROOT = (\<lambda>w. ''/go''),
      ReadDir = (\<lambda>w p. Inr [''avx512f.s'', ''avx512cd.s'']),
      Chdir = (\<lambda>w p. (None, w))\<rparr>"

definition example_collector :: "string list \<Rightarrow> collector" where
  "example_collector es =
     \<lparr>memArgRE = Some memArgRE_pattern, vmemArgRE = Some vmemArgRE_pattern,
      testDir = ''testdata'',
      availableExt = [''avx512f'' \<mapsto> True, ''avx512cd'' \<mapsto> True],
      stats = [],
      current = \<lparr>extension = [], scanner = new_scanner []\<rparr>,
      extensions = es, perfTool = ''perf'', workDir = ''work'',
      iformSpanSize = 100, loopCount = 1000000, perfRounds = 1\<rparr>"

definition example_files :: "string \<rightharpoonup> string" where
  "example_files =
     [''testdata/avx512f.s'' \<mapsto> ''// header'' @ [newline, tab] @ ''VADDPD Z0, Z1, Z2 // 62f1fd48''
                                  @ [newline, tab] @ ''RET'' @ [newline],
      ''testdata/avx512cd.s'' \<mapsto> []]"

text \<open>A step that leaves the statistics of the collector as they are.\<close>

definition keeps_stats :: "'w step \<Rightarrow> bool" where
  "keeps_stats f =
     (\<forall>c w lg r c' w' lg'. f (c, w, lg) = Inr (r, (c', w', lg')) \<longrightarrow> stats c' = stats c)"




text \<open>
  A file system with the test directory under the root \<open>/go\<close> of \<open>mem_sys\<close>: one well
  formed fixture and one empty one. The flags are the defaults but for the extensions.
\<close>

definition example_world :: "string \<rightharpoonup> string" where
  "example_world =
     [''/go/src/cmd/asm/internal/asm/testdata/avx512enc'' \<mapsto> [],
      ''/go/src/cmd/asm/internal/asm/testdata/avx512enc/avx512f.s'' \<mapsto>
        ''// header'' @ [newline, tab] @ ''VADDPD Z0, Z1, Z2 // 62f1fd48''
          @ [newline, tab] @ ''RET'' @ [newline],
      ''/go/src/cmd/asm/internal/asm/testdata/avx512enc/avx512cd.s'' \<mapsto> []]"

definition example_flags :: "string \<Rightarrow> flag_values" where
  "example_flags es = default_flags\<lparr>flag_extensions := es\<rparr>"

section \<open>The operand classifier\<close>

datatype OperandClass =
    PlainOperand
  | MemoryOperand
  | VectorMemoryOperand

text \<open>
  Modelled from the spec: the function that classifies an operand. The source compiles
  the two operand patterns in \<open>collector.init\<close> and never applies them. The spec gives
  the classes: a vector memory operand matches the stricter pattern, a memory operand
  matches the memory pattern, and every other operand is plain. The patterns are the
  ones of the source, applied as \<open>MatchString\<close> applies a pattern: to any part of the
  operand.
\<close>

definition classify :: "string \<Rightarrow> OperandClass" where
  "classify s =
     (if MatchString vmemArgRE_pattern s then VectorMemoryOperand
      else if MatchString memArgRE_pattern s then MemoryOperand
      else PlainOperand)"

text \<open>
  The parts of a memory operand: a displacement is empty or a decimal numeral with an
  optional minus sign, a register name is a non-empty word, a scale is one of 1, 2, 4
  and 8, and a vector register is X, Y or Z followed by a decimal numeral.
\<close>

definition displacement :: "string \<Rightarrow> bool" where
  "displacement d =
     (d = [] \<or> d \<in> plus_lang PerlDigit \<or>
      (d \<noteq> [] \<and> hd d = CHR ''-'' \<and> tl d \<in> plus_lang PerlDigit))"

definition reg_name :: "string \<Rightarrow> bool" where
  "reg_name r = (r \<in> plus_lang PerlWord)"

definition scale :: "char \<Rightarrow> bool" where
  "scale k = (k \<in> set ''1248'')"

definition vector_reg :: "string \<Rightarrow> bool" where
  "vector_reg i = (i \<noteq> [] \<and> hd i \<in> set ''XYZ'' \<and> tl i \<in> plus_lang PerlDigit)"

section \<open>The backtracking search and the language of a pattern\<close>

lemma conc_assoc: "conc (conc A B) C = conc A (conc B C)"
proof (rule set_eqI, rule iffI)
  fix w assume "w \<in> conc (conc A B) C"
  then obtain a b c where "w = (a @ b) @ c" "a \<in> A" "b \<in> B" "c \<in> C"
    by (auto simp: conc_def)
  then have "w = a @ (b @ c)" "a \<in> A" "b @ c \<in> conc B C"
    by (auto simp: conc_def)
  then show "w \<in> conc A (conc B C)"
    unfolding conc_def [of A] by blast
next
  fix w assume "w \<in> conc A (conc B C)"
  then obtain a b c where "w = a @ (b @ c)" "a \<in> A" "b \<in> B" "c \<in> C"
    by (auto simp: conc_def)
  then have "w = (a @ b) @ c" "a @ b \<in> conc A B" "c \<in> C"
    by (auto simp: conc_def)
  then show "w \<in> conc (conc A B) C"
    unfolding conc_def [of "conc A B"] by blast
qed

lemma conc_eps [simp]: "conc {[]} A = A" "conc A {[]} = A"
  by (auto simp: conc_def)

lemma conc_insert_eps: "conc (insert [] A) B = conc A B \<union> B"
  by (auto simp: conc_def)

lemma pm_Un: "pm (A \<union> B) s = (pm A s \<or> pm B s)"
  by (auto simp: pm_def)

lemma pm_eps [simp]: "pm {[]} s"
  by (simp add: pm_def)

lemma pm_lit_Nil [simp]: "\<not> pm (conc {[c]} L) []"
  by (simp add: pm_def conc_def)

lemma pm_lit_Cons [simp]: "pm (conc {[c]} L) (x # xs) = (x = c \<and> pm L xs)"
  by (auto simp: pm_def conc_def Cons_eq_append_conv)

lemma pm_cls_Nil [simp]: "\<not> pm (conc {[x] | x. P x} L) []"
  by (simp add: pm_def conc_def)

lemma pm_cls_Cons [simp]: "pm (conc {[y] | y. P y} L) (x # xs) = (P x \<and> pm L xs)"
proof
  assume "pm (conc {[y] | y. P y} L) (x # xs)"
  then obtain y t v where "x # xs = ([y] @ t) @ v" "P y" "t \<in> L"
    by (auto simp: pm_def conc_def)
  then show "P x \<and> pm L xs"
    by (auto simp: pm_def)
next
  assume "P x \<and> pm L xs"
  then obtain t v where "P x" "xs = t @ v" "t \<in> L"
    by (auto simp: pm_def)
  then have "x # xs = ([x] @ t) @ v" "[x] \<in> {[y] | y. P y}" "t \<in> L"
    by auto
  then show "pm (conc {[y] | y. P y} L) (x # xs)"
    unfolding pm_def conc_def by blast
qed

lemma pm_plus_Nil [simp]: "\<not> pm (conc (plus_lang c) L) []"
  by (simp add: pm_def conc_def plus_lang_def)

lemma pm_plus_Cons:
  "pm (conc (plus_lang c) L) (x # xs) =
     (cls_mem c x \<and> (pm (conc (plus_lang c) L) xs \<or> pm L xs))"
proof
  assume "pm (conc (plus_lang c) L) (x # xs)"
  then obtain w t v where eq: "x # xs = (w @ t) @ v" and w: "w \<in> plus_lang c" and t: "t \<in> L"
    by (auto simp: pm_def conc_def)
  from w obtain w' where w': "w = x # w'" and x: "cls_mem c x"
    and rest: "w' = [] \<or> w' \<in> plus_lang c"
    using eq by (cases w) (auto simp: plus_lang_def)
  from eq w' have xs: "xs = w' @ t @ v" by simp
  from rest show "cls_mem c x \<and> (pm (conc (plus_lang c) L) xs \<or> pm L xs)"
  proof
    assume "w' = []"
    with xs t x show ?thesis by (auto simp: pm_def)
  next
    assume "w' \<in> plus_lang c"
    with xs t have "pm (conc (plus_lang c) L) xs"
      unfolding pm_def conc_def by (intro exI [of _ "w' @ t"] exI [of _ v]) auto
    with x show ?thesis by simp
  qed
next
  assume a: "cls_mem c x \<and> (pm (conc (plus_lang c) L) xs \<or> pm L xs)"
  then have x: "cls_mem c x" by simp
  from a have "pm (conc (plus_lang c) L) xs \<or> pm L xs" by simp
  then show "pm (conc (plus_lang c) L) (x # xs)"
  proof
    assume "pm (conc (plus_lang c) L) xs"
    then obtain w t v where "xs = (w @ t) @ v" "w \<in> plus_lang c" "t \<in> L"
      by (auto simp: pm_def conc_def)
    with x have "x # xs = ((x # w) @ t) @ v" "x # w \<in> plus_lang c" "t \<in> L"
      by (auto simp: plus_lang_def)
    then show ?thesis
      unfolding pm_def conc_def by blast
  next
    assume "pm L xs"
    then obtain t v where "xs = t @ v" "t \<in> L"
      by (auto simp: pm_def)
    with x have "x # xs = ([x] @ t) @ v" "[x] \<in> plus_lang c" "t \<in> L"
      by (auto simp: plus_lang_def)
    then show ?thesis
      unfolding pm_def conc_def by blast
  qed
qed

lemma pm_star_Nil [simp]: "pm (conc (star_lang c) L) [] = pm L []"
  by (auto simp: pm_def conc_def star_lang_def)

lemma pm_star_Cons:
  "pm (conc (star_lang c) L) (x # xs) =
     (pm L (x # xs) \<or> (cls_mem c x \<and> pm (conc (star_lang c) L) xs))"
proof
  assume "pm (conc (star_lang c) L) (x # xs)"
  then obtain w t v where eq: "x # xs = (w @ t) @ v" and w: "w \<in> star_lang c" and t: "t \<in> L"
    by (auto simp: pm_def conc_def)
  show "pm L (x # xs) \<or> (cls_mem c x \<and> pm (conc (star_lang c) L) xs)"
  proof (cases w)
    case Nil
    with eq t show ?thesis by (auto simp: pm_def)
  next
    case (Cons y w')
    with eq w have "y = x" "cls_mem c x" "w' \<in> star_lang c" "xs = (w' @ t) @ v"
      by (auto simp: star_lang_def)
    with t have "pm (conc (star_lang c) L) xs"
      unfolding pm_def conc_def by blast
    with \<open>cls_mem c x\<close> show ?thesis by simp
  qed
next
  assume "pm L (x # xs) \<or> (cls_mem c x \<and> pm (conc (star_lang c) L) xs)"
  then show "pm (conc (star_lang c) L) (x # xs)"
  proof
    assume "pm L (x # xs)"
    then obtain t v where "x # xs = t @ v" "t \<in> L"
      by (auto simp: pm_def)
    then have "x # xs = ([] @ t) @ v" "[] \<in> star_lang c" "t \<in> L"
      by (auto simp: star_lang_def)
    then show ?thesis
      unfolding pm_def conc_def by blast
  next
    assume a: "cls_mem c x \<and> pm (conc (star_lang c) L) xs"
    then obtain w t v where "xs = (w @ t) @ v" "w \<in> star_lang c" "t \<in> L"
      by (auto simp: pm_def conc_def)
    with a have "x # xs = ((x # w) @ t) @ v" "x # w \<in> star_lang c" "t \<in> L"
      by (auto simp: star_lang_def)
    then show ?thesis
      unfolding pm_def conc_def by blast
  qed
qed

theorem bt_None_iff: "(bt k s pos caps = None) = (\<not> pm (flang k) s)"
proof (induction k s pos caps rule: bt.induct)
  case (2 i b k s pos caps)
  then show ?case
    by (simp only: bt.simps flang.simps)
next
  case (9 a k s pos caps)
  then show ?case
    by (auto simp: conc_insert_eps pm_Un split: option.splits)
next
  case (11 c k x xs pos caps)
  then show ?case
    by (auto simp: pm_plus_Cons split: option.splits)
next
  case (13 c k x xs pos caps)
  then show ?case
    by (auto simp: pm_star_Cons split: option.splits)
qed (simp_all add: conc_assoc)

lemma find_from_None_iff:
  "(find_from r s pos = None) = (\<not> (\<exists>u v. s = u @ v \<and> pm (lang r) v))"
proof (induction s arbitrary: pos)
  case Nil
  have "(bt [Match r] [] pos Map.empty = None) = (\<not> pm (lang r) [])"
    by (simp add: bt_None_iff)
  then show ?case
    by (auto split: option.splits)
next
  case (Cons x xs)
  have b: "(bt [Match r] (x # xs) pos Map.empty = None) = (\<not> pm (lang r) (x # xs))"
    by (simp add: bt_None_iff)
  have "(\<exists>u v. x # xs = u @ v \<and> pm (lang r) v) =
          (pm (lang r) (x # xs) \<or> (\<exists>u v. xs = u @ v \<and> pm (lang r) v))"
    by (auto simp: Cons_eq_append_conv)
  with b Cons [of "Suc pos"] show ?case
    by (auto split: option.splits)
qed

lemma MatchString_iff:
  "MatchString r s = (\<exists>u v w. s = u @ v @ w \<and> v \<in> lang r)"
  unfolding MatchString_def find_from_None_iff pm_def by blast

lemma bt_LazyStar_Some:
  "bt (Match (LazyStar c) # k) s pos caps = Some r \<Longrightarrow>
     \<exists>n \<le> length s. (\<forall>x \<in> set (take n s). cls_mem c x) \<and>
        bt k (drop n s) (pos + n) caps = Some r \<and>
        (\<forall>j < n. bt k (drop j s) (pos + j) caps = None)"
proof (induction s arbitrary: pos)
  case Nil
  then show ?case by simp
next
  case (Cons x xs)
  show ?case
  proof (cases "bt k (x # xs) pos caps")
    case (Some r')
    with Cons.prems have "bt k (drop 0 (x # xs)) (pos + 0) caps = Some r" by simp
    then show ?thesis by (intro exI [of _ 0]) simp
  next
    case None
    with Cons.prems have x: "cls_mem c x"
      and rec: "bt (Match (LazyStar c) # k) xs (Suc pos) caps = Some r"
      by (auto split: if_splits)
    from Cons.IH [OF rec] obtain n where n: "n \<le> length xs"
      "\<forall>x \<in> set (take n xs). cls_mem c x"
      "bt k (drop n xs) (Suc pos + n) caps = Some r"
      "\<forall>j < n. bt k (drop j xs) (Suc pos + j) caps = None"
      by blast
    have "\<forall>j < Suc n. bt k (drop j (x # xs)) (pos + j) caps = None"
    proof (intro allI impI)
      fix j assume "j < Suc n"
      then show "bt k (drop j (x # xs)) (pos + j) caps = None"
        using None n(4) by (cases j) auto
    qed
    with n x show ?thesis
      by (intro exI [of _ "Suc n"]) auto
  qed
qed

lemma bt_Plus_last:
  "bt [Match (Plus c)] s pos caps =
     (if s \<noteq> [] \<and> cls_mem c (hd s)
      then Some (pos + length (takeWhile (cls_mem c) s), caps) else None)"
proof (induction s arbitrary: pos)
  case Nil
  then show ?case by simp
next
  case (Cons x xs)
  then show ?case
    by (cases xs) auto
qed

section \<open>The line pattern\<close>

lemma lineRE_pattern_unfold:
  "lineRE_pattern = Seq (Lit tab) (Seq (Cap 1 (LazyStar Dot)) operandsRE)"
  by (simp add: lineRE_pattern_def operandsRE_def commentRE_def)

lemma bt_Seq_Lit_Some:
  "bt (Match (Seq (Lit c) b) # k) s pos caps = Some r \<Longrightarrow>
     \<exists>xs. s = c # xs \<and> bt (Match b # k) xs (Suc pos) caps = Some r"
  by (cases s) (auto split: if_splits)

lemma bt_Some_pm: "bt k s pos caps = Some r \<Longrightarrow> pm (flang k) s"
  using bt_None_iff [of k s pos caps] by auto

lemma pm_bt_Some: "pm (flang k) s \<Longrightarrow> bt k s pos caps \<noteq> None"
  using bt_None_iff [of k s pos caps] by auto

lemma bt_comment_Some:
  assumes "bt [Match commentRE] t p caps = Some r"
  shows "\<exists>t'. t = '' // '' @ t' \<and> t' \<noteq> [] \<and> cls_mem hexC (hd t') \<and>
              r = (p + 4 + length (takeWhile (cls_mem hexC) t'), caps)"
proof -
  from assms have "bt [Match (Seq (Lit CHR '' '') (Seq (Lit CHR ''/'') (Seq (Lit CHR ''/'')
      (Seq (Lit CHR '' '') (Plus hexC)))))] t p caps = Some r"
    by (simp add: commentRE_def)
  then obtain t1 where t1: "t = CHR '' '' # t1"
    "bt [Match (Seq (Lit CHR ''/'') (Seq (Lit CHR ''/'') (Seq (Lit CHR '' '') (Plus hexC))))]
       t1 (Suc p) caps = Some r"
    by (blast dest: bt_Seq_Lit_Some)
  then obtain t2 where t2: "t1 = CHR ''/'' # t2"
    "bt [Match (Seq (Lit CHR ''/'') (Seq (Lit CHR '' '') (Plus hexC)))]
       t2 (Suc (Suc p)) caps = Some r"
    by (blast dest: bt_Seq_Lit_Some)
  then obtain t3 where t3: "t2 = CHR ''/'' # t3"
    "bt [Match (Seq (Lit CHR '' '') (Plus hexC))] t3 (Suc (Suc (Suc p))) caps = Some r"
    by (blast dest: bt_Seq_Lit_Some)
  then obtain t4 where t4: "t3 = CHR '' '' # t4"
    "bt [Match (Plus hexC)] t4 (Suc (Suc (Suc (Suc p)))) caps = Some r"
    by (blast dest: bt_Seq_Lit_Some)
  from t4(2) have "t4 \<noteq> []" "cls_mem hexC (hd t4)"
    "r = (p + 4 + length (takeWhile (cls_mem hexC) t4), caps)"
    by (auto simp: bt_Plus_last split: if_splits)
  with t1(1) t2(1) t3(1) t4(1) show ?thesis by simp
qed

lemma pm_star_append:
  "\<forall>x \<in> set u. cls_mem c x \<Longrightarrow> pm (conc (star_lang c) L) v \<Longrightarrow>
     pm (conc (star_lang c) L) (u @ v)"
  by (induction u) (auto simp: pm_star_Cons)

lemma pm_operands_extend:
  assumes "pm (lang operandsRE) (CHR '' '' # t)" and "\<forall>x \<in> set u. cls_mem Dot x"
  shows "pm (lang operandsRE) (CHR '' '' # u @ CHR '' '' # t)"
proof -
  from assms(1) have "pm (conc (star_lang Dot) (lang commentRE)) t"
    by (simp add: operandsRE_def)
  with assms(2) have "pm (conc (star_lang Dot) (lang commentRE)) ((u @ [CHR '' '']) @ t)"
    by (intro pm_star_append) auto
  then show ?thesis
    by (simp add: operandsRE_def)
qed

lemma bt_operands_Some:
  assumes "bt [Match operandsRE] t p caps = Some r"
  shows "\<exists>a t'. t = CHR '' '' # a @ '' // '' @ t' \<and> (\<forall>x \<in> set a. cls_mem Dot x) \<and>
           t' \<noteq> [] \<and> cls_mem hexC (hd t') \<and>
           r = (p + 1 + length a + 4 + length (takeWhile (cls_mem hexC) t'),
                caps(2 \<mapsto> (Suc p, Suc p + length a)))"
proof -
  from assms have "bt [Match (Seq (Lit CHR '' '') (Seq (Cap 2 (LazyStar Dot)) commentRE))]
      t p caps = Some r"
    by (simp add: operandsRE_def)
  then obtain t1 where t1: "t = CHR '' '' # t1"
    "bt [Match (Seq (Cap 2 (LazyStar Dot)) commentRE)] t1 (Suc p) caps = Some r"
    by (blast dest: bt_Seq_Lit_Some)
  from t1(2) have "bt [Match (LazyStar Dot), Close 2 (Suc p), Match commentRE]
      t1 (Suc p) caps = Some r"
    by simp
  from bt_LazyStar_Some [OF this] obtain n where n: "n \<le> length t1"
    "\<forall>x \<in> set (take n t1). cls_mem Dot x"
    "bt [Close 2 (Suc p), Match commentRE] (drop n t1) (Suc p + n) caps = Some r"
    by blast
  from n(3) have "bt [Match commentRE] (drop n t1) (Suc p + n)
      (caps(2 \<mapsto> (Suc p, Suc p + n))) = Some r"
    by simp
  from bt_comment_Some [OF this] obtain t' where t': "drop n t1 = '' // '' @ t'"
    "t' \<noteq> []" "cls_mem hexC (hd t')"
    "r = (Suc p + n + 4 + length (takeWhile (cls_mem hexC) t'),
          caps(2 \<mapsto> (Suc p, Suc p + n)))"
    by blast
  define a where "a = take n t1"
  have "a @ drop n t1 = t1" by (simp add: a_def)
  then have eq: "t1 = a @ '' // '' @ t'" by (simp only: t'(1))
  have la: "length a = n" using n(1) by (simp add: a_def)
  have da: "\<forall>x \<in> set a. cls_mem Dot x" using n(2) by (simp only: a_def)
  have "t = CHR '' '' # a @ '' // '' @ t'"
    using t1(1) eq by simp
  moreover have "r = (p + 1 + length a + 4 + length (takeWhile (cls_mem hexC) t'),
                caps(2 \<mapsto> (Suc p, Suc p + length a)))"
    using t'(4) la by simp
  ultimately show ?thesis
    using da t'(2,3)
    by (intro exI [of _ a] exI [of _ t'] conjI) assumption+
qed

lemma bt_line_Some:
  assumes "bt [Match lineRE_pattern] s p caps = Some r"
  shows "\<exists>opc a t'. s = tab # opc @ CHR '' '' # a @ '' // '' @ t' \<and>
           (\<forall>x \<in> set opc. cls_mem Dot x) \<and> CHR '' '' \<notin> set opc \<and>
           (\<forall>x \<in> set a. cls_mem Dot x) \<and> t' \<noteq> [] \<and> cls_mem hexC (hd t') \<and>
           r = (p + 1 + length opc + 1 + length a + 4 + length (takeWhile (cls_mem hexC) t'),
                caps(1 \<mapsto> (Suc p, Suc p + length opc),
                     2 \<mapsto> (Suc (Suc p + length opc), Suc (Suc p + length opc) + length a)))"
proof -
  from assms have "bt [Match (Seq (Lit tab) (Seq (Cap 1 (LazyStar Dot)) operandsRE))]
      s p caps = Some r"
    by (simp only: lineRE_pattern_unfold)
  then obtain s1 where s1: "s = tab # s1"
    "bt [Match (Seq (Cap 1 (LazyStar Dot)) operandsRE)] s1 (Suc p) caps = Some r"
    by (blast dest: bt_Seq_Lit_Some)
  from s1(2) have "bt [Match (LazyStar Dot), Close 1 (Suc p), Match operandsRE]
      s1 (Suc p) caps = Some r"
    by simp
  from bt_LazyStar_Some [OF this] obtain n where n: "n \<le> length s1"
    "\<forall>x \<in> set (take n s1). cls_mem Dot x"
    "bt [Close 1 (Suc p), Match operandsRE] (drop n s1) (Suc p + n) caps = Some r"
    "\<forall>j < n. bt [Close 1 (Suc p), Match operandsRE] (drop j s1) (Suc p + j) caps = None"
    by blast
  from n(3) have ops: "bt [Match operandsRE] (drop n s1) (Suc p + n)
      (caps(1 \<mapsto> (Suc p, Suc p + n))) = Some r"
    by simp
  from bt_operands_Some [OF ops] obtain a t' where at: "drop n s1 = CHR '' '' # a @ '' // '' @ t'"
    "\<forall>x \<in> set a. cls_mem Dot x" "t' \<noteq> []" "cls_mem hexC (hd t')"
    "r = (Suc p + n + 1 + length a + 4 + length (takeWhile (cls_mem hexC) t'),
          (caps(1 \<mapsto> (Suc p, Suc p + n)))(2 \<mapsto> (Suc (Suc p + n), Suc (Suc p + n) + length a)))"
    by blast
  define opc where "opc = take n s1"
  have td: "opc @ drop n s1 = s1" by (simp add: opc_def)
  then have split: "s1 = opc @ CHR '' '' # a @ '' // '' @ t'" by (simp only: at(1))
  have len: "length opc = n" using n(1) by (simp add: opc_def)
  have dots: "\<forall>x \<in> set opc. cls_mem Dot x" using n(2) by (simp only: opc_def)
  have nospace: "CHR '' '' \<notin> set opc"
  proof
    assume "CHR '' '' \<in> set opc"
    then obtain u v where uv: "opc = u @ CHR '' '' # v"
      by (auto simp: in_set_conv_decomp)
    have j: "length u < n" using len by (simp add: uv)
    have v: "\<forall>x \<in> set v. cls_mem Dot x" using dots by (simp add: uv)
    have "s1 = u @ (CHR '' '' # v @ CHR '' '' # a @ '' // '' @ t')"
      using split by (simp add: uv)
    then have d: "drop (length u) s1 = CHR '' '' # v @ CHR '' '' # a @ '' // '' @ t'"
      by simp
    have "pm (lang operandsRE) (drop n s1)"
      using bt_Some_pm [OF ops] by simp
    then have "pm (lang operandsRE) (CHR '' '' # a @ '' // '' @ t')"
      by (simp only: at(1))
    from pm_operands_extend [OF this v]
    have "pm (lang operandsRE) (drop (length u) s1)"
      by (simp only: d)
    then have "bt [Close 1 (Suc p), Match operandsRE] (drop (length u) s1)
        (Suc p + length u) caps \<noteq> None"
      by (intro pm_bt_Some) simp
    then show False
      using n(4) [rule_format, OF j] by (rule notE)
  qed
  have "s = tab # opc @ CHR '' '' # a @ '' // '' @ t'"
    using s1(1) split by simp
  moreover have "r = (p + 1 + length opc + 1 + length a + 4 + length (takeWhile (cls_mem hexC) t'),
                caps(1 \<mapsto> (Suc p, Suc p + length opc),
                     2 \<mapsto> (Suc (Suc p + length opc), Suc (Suc p + length opc) + length a)))"
    using at(5) len by simp
  ultimately show ?thesis
    using dots nospace at(2,3,4)
    by (intro exI [of _ opc] exI [of _ a] exI [of _ t'] conjI) assumption+
qed

lemma find_from_Some:
  "find_from r s pos = Some (b, e, cp) \<Longrightarrow>
     \<exists>pre t. s = pre @ t \<and> b = pos + length pre \<and> bt [Match r] t b Map.empty = Some (e, cp)"
proof (induction s arbitrary: pos)
  case Nil
  then have "b = pos" "bt [Match r] [] b Map.empty = Some (e, cp)"
    by (auto split: option.splits)
  then show ?case by simp
next
  case (Cons x xs)
  show ?case
  proof (cases "bt [Match r] (x # xs) pos Map.empty")
    case (Some res)
    with Cons.prems have "b = pos" "bt [Match r] (x # xs) b Map.empty = Some (e, cp)"
      by (auto split: prod.splits)
    then have "x # xs = [] @ (x # xs) \<and> b = pos + length ([] :: string) \<and>
        bt [Match r] (x # xs) b Map.empty = Some (e, cp)"
      by simp
    then show ?thesis by (intro exI)
  next
    case None
    with Cons.prems have "find_from r xs (Suc pos) = Some (b, e, cp)" by simp
    from Cons.IH [OF this] obtain pre t where pt: "xs = pre @ t" "b = Suc pos + length pre"
      "bt [Match r] t b Map.empty = Some (e, cp)"
      by auto
    then have "x # xs = (x # pre) @ t \<and> b = pos + length (x # pre) \<and>
        bt [Match r] t b Map.empty = Some (e, cp)"
      by simp
    then show ?thesis by (intro exI)
  qed
qed

lemma num_subexp_lineRE: "num_subexp lineRE_pattern = 2"
  by (simp add: lineRE_pattern_def)

lemma upt_1_3: "[Suc 0 ..< 3] = [Suc 0, 2]"
  by (simp add: upt_rec)

lemma substr_mid: "substr (p @ m @ q) (length p) (length p + length m) = m"
  by (simp add: substr_def)


lemma find_from_first:
  "find_from r s pos = Some (b, e, cp) \<Longrightarrow> j < b - pos \<Longrightarrow>
     bt [Match r] (drop j s) (pos + j) Map.empty = None"
proof (induction s arbitrary: pos j)
  case Nil
  then show ?case by (auto split: option.splits)
next
  case (Cons x xs)
  show ?case
  proof (cases "bt [Match r] (x # xs) pos Map.empty")
    case (Some res)
    with Cons.prems show ?thesis by (auto split: prod.splits)
  next
    case None
    with Cons.prems have ff: "find_from r xs (Suc pos) = Some (b, e, cp)" by simp
    show ?thesis
    proof (cases j)
      case 0
      with None show ?thesis by simp
    next
      case (Suc j')
      with Cons.prems(2) have "j' < b - Suc pos" by simp
      from Cons.IH [OF ff this] Suc show ?thesis by simp
    qed
  qed
qed

lemma pm_line_from_tab:
  assumes "pm (lang operandsRE) w" and "\<forall>x \<in> set v. cls_mem Dot x"
  shows "pm (lang lineRE_pattern) (tab # v @ w)"
proof -
  from assms(1) have "pm (conc (star_lang Dot) (lang operandsRE)) w"
    by (cases w) (simp_all add: pm_star_Cons)
  with assms(2) have "pm (conc (star_lang Dot) (lang operandsRE)) (v @ w)"
    by (rule pm_star_append)
  then show ?thesis
    by (simp add: lineRE_pattern_unfold)
qed

lemma pm_plus_last: "pm (plus_lang c) (x # xs) = cls_mem c x"
  using pm_plus_Cons [of c "{[]}" x xs] by simp

lemma pm_comment_intro:
  assumes "t' \<noteq> []" and "cls_mem hexC (hd t')"
  shows "pm (lang commentRE) ('' // '' @ t')"
proof -
  from assms obtain x xs where "t' = x # xs" "cls_mem hexC x"
    by (cases t') auto
  then show ?thesis
    by (simp add: commentRE_def pm_plus_last)
qed

lemma pm_operands_intro:
  assumes "\<forall>x \<in> set a. cls_mem Dot x" and "t' \<noteq> []" and "cls_mem hexC (hd t')"
  shows "pm (lang operandsRE) (CHR '' '' # a @ '' // '' @ t')"
proof -
  have c: "pm (lang commentRE) ('' // '' @ t')"
    using assms(2,3) by (rule pm_comment_intro)
  then have "pm (conc (star_lang Dot) (lang commentRE)) ('' // '' @ t')"
    by (simp add: pm_star_Cons)
  with assms(1) have "pm (conc (star_lang Dot) (lang commentRE)) (a @ '' // '' @ t')"
    by (rule pm_star_append)
  then show ?thesis
    by (simp add: operandsRE_def)
qed

lemma line_match_first_tab:
  assumes ff: "find_from lineRE_pattern l 0 = Some (b, e, cp)" and nl: "newline \<notin> set l"
  shows "tab \<notin> set (take b l)"
proof
  assume "tab \<in> set (take b l)"
  then obtain u v where uv: "take b l = u @ tab # v"
    by (auto simp: in_set_conv_decomp)
  from find_from_Some [OF ff] obtain pre t where pt: "l = pre @ t" "b = length pre"
    "bt [Match lineRE_pattern] t b Map.empty = Some (e, cp)"
    by auto
  have pre: "pre = u @ tab # v" using uv pt(1,2) by simp
  have j: "length u < b - 0" using pt(2) pre by simp
  from bt_line_Some [OF pt(3)] obtain opc a t' where sh:
    "t = tab # opc @ CHR '' '' # a @ '' // '' @ t'"
    "\<forall>x \<in> set opc. cls_mem Dot x"
    "\<forall>x \<in> set a. cls_mem Dot x" "t' \<noteq> []" "cls_mem hexC (hd t')"
    by auto
  define w where "w = CHR '' '' # a @ '' // '' @ t'"
  have t: "t = tab # opc @ w" using sh(1) by (simp add: w_def)
  have opc: "\<forall>x \<in> set opc. cls_mem Dot x" by (rule sh(2))
  have w: "pm (lang operandsRE) w"
    unfolding w_def using sh(3,4,5) by (rule pm_operands_intro)
  have dots: "\<forall>x \<in> set (v @ tab # opc). cls_mem Dot x"
    using nl opc pt(1) pre by auto
  have "drop (length u) l = tab # (v @ tab # opc) @ w"
    using pt(1) pre t by simp
  moreover have "pm (lang lineRE_pattern) (tab # (v @ tab # opc) @ w)"
    using w dots by (rule pm_line_from_tab)
  ultimately have "pm (flang [Match lineRE_pattern]) (drop (length u) l)"
    by simp
  then have "bt [Match lineRE_pattern] (drop (length u) l) (0 + length u) Map.empty \<noteq> None"
    by (rule pm_bt_Some)
  then show False
    using find_from_first [OF ff j] by (rule notE)
qed

lemma line_match_shape:
  assumes "FindStringSubmatch lineRE_pattern l = Some m"
  shows "\<exists>pre opc a h post.
           l = pre @ (tab # opc @ CHR '' '' # a @ '' // '' @ h) @ post \<and>
           m = [tab # opc @ CHR '' '' # a @ '' // '' @ h, opc, a] \<and>
           CHR '' '' \<notin> set opc \<and> newline \<notin> set opc \<and> newline \<notin> set a \<and>
           h \<noteq> [] \<and> (\<forall>c \<in> set h. cls_mem hexC c) \<and>
           (post = [] \<or> \<not> cls_mem hexC (hd post)) \<and>
           (newline \<notin> set l \<longrightarrow> tab \<notin> set pre)"
proof -
  from assms obtain b e cp where ff: "find_from lineRE_pattern l 0 = Some (b, e, cp)"
    and m: "m = substr l b e #
        map (\<lambda>i. case cp i of None \<Rightarrow> [] | Some (b', e') \<Rightarrow> substr l b' e') [Suc 0, 2]"
    by (auto simp: FindStringSubmatch_def num_subexp_lineRE upt_1_3 split: option.splits)
  from find_from_Some [OF ff] obtain pre t where pt: "l = pre @ t" "b = length pre"
    "bt [Match lineRE_pattern] t b Map.empty = Some (e, cp)"
    by auto
  from bt_line_Some [OF pt(3)] obtain opc a t' where sh:
    "t = tab # opc @ CHR '' '' # a @ '' // '' @ t'"
    "\<forall>x \<in> set opc. cls_mem Dot x" "CHR '' '' \<notin> set opc"
    "\<forall>x \<in> set a. cls_mem Dot x" "t' \<noteq> []" "cls_mem hexC (hd t')"
    "(e, cp) = (b + 1 + length opc + 1 + length a + 4 + length (takeWhile (cls_mem hexC) t'),
       Map.empty(1 \<mapsto> (Suc b, Suc b + length opc),
         2 \<mapsto> (Suc (Suc b + length opc), Suc (Suc b + length opc) + length a)))"
    by auto
  define h where "h = takeWhile (cls_mem hexC) t'"
  define post where "post = dropWhile (cls_mem hexC) t'"
  define m0 where "m0 = tab # opc @ CHR '' '' # a @ '' // '' @ h"
  have t': "t' = h @ post" by (simp add: h_def post_def)
  have hne: "h \<noteq> []" using sh(5,6) by (cases t') (auto simp: h_def)
  have hhex: "\<forall>c \<in> set h. cls_mem hexC c"
    unfolding h_def by (auto dest: set_takeWhileD)
  have postp: "post = [] \<or> \<not> cls_mem hexC (hd post)"
    unfolding post_def by (metis hd_dropWhile)
  have l: "l = pre @ m0 @ post"
    using pt(1) sh(1) t' by (simp add: m0_def)
  have e: "e = length pre + length m0"
    using sh(7) pt(2) by (simp add: m0_def h_def)
  have s0: "substr l b e = m0"
    unfolding l e pt(2) by (rule substr_mid)
  have c1: "cp 1 = Some (Suc (length pre), Suc (length pre) + length opc)"
    using sh(7) pt(2) by simp
  have c2: "cp 2 = Some (Suc (Suc (length pre) + length opc),
      Suc (Suc (length pre) + length opc) + length a)"
    using sh(7) pt(2) by simp
  have "l = (pre @ [tab]) @ opc @ (CHR '' '' # a @ '' // '' @ h @ post)"
    using l by (simp add: m0_def)
  then have "substr l (length (pre @ [tab])) (length (pre @ [tab]) + length opc) = opc"
    by (simp only: substr_mid)
  then have s1: "substr l (Suc (length pre)) (Suc (length pre) + length opc) = opc"
    by simp
  have "l = (pre @ tab # opc @ [CHR '' '']) @ a @ ('' // '' @ h @ post)"
    using l by (simp add: m0_def)
  then have "substr l (length (pre @ tab # opc @ [CHR '' '']))
      (length (pre @ tab # opc @ [CHR '' '']) + length a) = a"
    by (simp only: substr_mid)
  then have s2: "substr l (Suc (Suc (length pre) + length opc))
      (Suc (Suc (length pre) + length opc) + length a) = a"
    by simp
  have mm: "m = [m0, opc, a]"
    using s0 c1 c2 s1 s2 unfolding m by simp
  have nl1: "newline \<notin> set opc" using sh(2) by auto
  have nl2: "newline \<notin> set a" using sh(4) by auto
  have "take b l = pre" using pt(1,2) by simp
  with line_match_first_tab [OF ff] have ft: "newline \<notin> set l \<longrightarrow> tab \<notin> set pre"
    by simp
  show ?thesis
    using l mm sh(3) nl1 nl2 hne hhex postp ft unfolding m0_def
    by (intro exI [of _ pre] exI [of _ opc] exI [of _ a] exI [of _ h] exI [of _ post] conjI)
      assumption+
qed

text \<open>
  What a match of the line pattern means for the line: somewhere in it stand a tab, an
  opcode and operands without a newline, separated by a space, and after a space, two
  slashes and a space at least one hexadecimal digit.
\<close>

lemma line_pattern_iff:
  "(FindStringSubmatch lineRE_pattern l \<noteq> None) =
     (\<exists>pre opc a t'. l = pre @ tab # opc @ CHR '' '' # a @ '' // '' @ t' \<and>
        newline \<notin> set opc \<and> newline \<notin> set a \<and> t' \<noteq> [] \<and> cls_mem hexC (hd t'))"
proof
  assume "FindStringSubmatch lineRE_pattern l \<noteq> None"
  then obtain m where "FindStringSubmatch lineRE_pattern l = Some m" by auto
  from line_match_shape [OF this] obtain pre opc a h post where sh:
    "l = pre @ (tab # opc @ CHR '' '' # a @ '' // '' @ h) @ post"
    "newline \<notin> set opc" "newline \<notin> set a" "h \<noteq> []" "\<forall>c \<in> set h. cls_mem hexC c"
    by blast
  from sh(4,5) have "h @ post \<noteq> []" "cls_mem hexC (hd (h @ post))"
    by (cases h; simp)+
  moreover from sh(1) have "l = pre @ tab # opc @ CHR '' '' # a @ '' // '' @ (h @ post)"
    by simp
  ultimately show "\<exists>pre opc a t'. l = pre @ tab # opc @ CHR '' '' # a @ '' // '' @ t' \<and>
        newline \<notin> set opc \<and> newline \<notin> set a \<and> t' \<noteq> [] \<and> cls_mem hexC (hd t')"
    using sh(2,3)
    by (intro exI [of _ pre] exI [of _ opc] exI [of _ a] exI [of _ "h @ post"] conjI)
next
  assume "\<exists>pre opc a t'. l = pre @ tab # opc @ CHR '' '' # a @ '' // '' @ t' \<and>
        newline \<notin> set opc \<and> newline \<notin> set a \<and> t' \<noteq> [] \<and> cls_mem hexC (hd t')"
  then obtain pre opc a t' where sh: "l = pre @ tab # opc @ CHR '' '' # a @ '' // '' @ t'"
    "newline \<notin> set opc" "newline \<notin> set a" "t' \<noteq> []" "cls_mem hexC (hd t')"
    by blast
  have "\<forall>x \<in> set a. cls_mem Dot x" using sh(3) by auto
  then have "pm (lang operandsRE) (CHR '' '' # a @ '' // '' @ t')"
    using sh(4,5) by (rule pm_operands_intro)
  moreover have "\<forall>x \<in> set opc. cls_mem Dot x" using sh(2) by auto
  ultimately have "pm (lang lineRE_pattern) (tab # opc @ CHR '' '' # a @ '' // '' @ t')"
    by (rule pm_line_from_tab)
  with sh(1) have "\<exists>u v. l = u @ v \<and> pm (lang lineRE_pattern) v"
    by (intro exI [of _ pre] exI [of _ "tab # opc @ CHR '' '' # a @ '' // '' @ t'"]) simp
  then have "find_from lineRE_pattern l 0 \<noteq> None"
    by (simp only: find_from_None_iff not_not)
  then show "FindStringSubmatch lineRE_pattern l \<noteq> None"
    by (auto simp: FindStringSubmatch_def split: option.splits)
qed


section \<open>The scanner\<close>

text \<open>
  Splitting loses nothing: no piece holds the separator, and the pieces with the
  separator after each are the string with the separator after it.
\<close>

lemma split_on_nonempty: "split_on c s \<noteq> []"
  by (induction s) (auto split: list.splits)

lemma split_on_pieces: "p \<in> set (split_on c s) \<Longrightarrow> c \<notin> set p"
proof (induction s arbitrary: p)
  case Nil
  then show ?case by simp
next
  case (Cons x xs)
  then show ?case
    by (cases "split_on c xs") (auto split: if_splits)
qed

lemma split_on_join: "concat (map (\<lambda>p. p @ [c]) (split_on c s)) = s @ [c]"
proof (induction s)
  case Nil
  then show ?case by simp
next
  case (Cons x xs)
  then show ?case
    by (cases "split_on c xs") (auto simp: split_on_nonempty)
qed

lemma skip_header_eq:
  "skip_header ls =
     (if list_ex tab_initial ls then Inr (dropWhile (\<lambda>l. \<not> tab_initial l) ls)
      else Inl IndexOutOfRange)"
  by (induction ls) (auto simp: tab_initial_def)

text \<open>
  Claim C10. When the file can be read, \<open>init\<close> returns normally exactly when some line
  of the file begins with a tab; it then leaves the lines from the first such line on.
  When no line begins with a tab it panics with an index out of range and returns
  neither a state nor an error.
\<close>

theorem init_returns_iff_tab_line:
  assumes "readFile (filename s) = Inr data"
  shows "testFileScanner_init readFile s =
           (if list_ex tab_initial (split_on newline data)
            then Inr (None, s\<lparr>lineRE := Some lineRE_pattern,
                               lines := dropWhile (\<lambda>l. \<not> tab_initial l) (split_on newline data)\<rparr>)
            else Inl IndexOutOfRange)"
  using assms by (simp add: testFileScanner_init_def skip_header_eq)

theorem init_returns_iff_tab_line_witness:
  "testFileScanner_init (\<lambda>n. Inr ''// header'') (new_scanner ''avx512f.s'') = Inl IndexOutOfRange"
  using init_returns_iff_tab_line
    [of "\<lambda>n. Inr ''// header''" "new_scanner ''avx512f.s''" "''// header''"]
  by (simp add: tab_initial_def)

text \<open>
  Claim C6. The claim asks \<open>init\<close> to return for every readable file, with the leading
  lines dropped. On a readable file that is empty \<open>init\<close> drops the one empty line and
  then reads the first element of the empty slice: it panics.
\<close>

theorem init_empty_file_panics:
  "testFileScanner_init (\<lambda>n. Inr []) (new_scanner ''avx512f.s'') = Inl IndexOutOfRange"
  by (simp add: testFileScanner_init_def)

lemma init_scanner_ok:
  "testFileScanner_init readFile (new_scanner fn) = Inr (None, s) \<Longrightarrow> scanner_ok s"
  by (auto simp: testFileScanner_init_def new_scanner_def scanner_ok_def
           split: sum.splits)

lemma scan_scanner_ok:
  "scanner_ok s \<Longrightarrow> scan s = Inr (b, s') \<Longrightarrow> scanner_ok s'"
  by (auto simp: scan_def scanner_ok_def split: if_splits option.splits)

lemma scan_no_panic:
  "scanner_ok s \<Longrightarrow> \<exists>b s'. scan s = Inr (b, s')"
  by (auto simp: scan_def scanner_ok_def split: if_splits option.splits)

text \<open>
  Claim C3. In a state with no stored error, \<open>scan\<close> returns false and stores no error
  exactly when the current line is the sentinel, and the state is then unchanged; when
  no line is left it returns false and stores the unexpected-EOF error with the file
  name.
\<close>

theorem scan_stops_at_sentinel:
  assumes "err s = None"
  shows "((\<exists>s'. scan s = Inr (False, s') \<and> err s' = None) =
            (lines s \<noteq> [] \<and> hd (lines s) = sentinel)) \<and>
         (lines s \<noteq> [] \<and> hd (lines s) = sentinel \<longrightarrow> scan s = Inr (False, s)) \<and>
         (lines s = [] \<longrightarrow>
            scan s = Inr (False, s\<lparr>err := Some (UnexpectedEOF (filename s))\<rparr>))"
  using assms by (auto simp: scan_def split: option.splits)

theorem scan_stops_at_sentinel_witness:
  "scan (example_scanner [sentinel, []]) = Inr (False, example_scanner [sentinel, []]) \<and>
   scan (example_scanner []) =
     Inr (False, (example_scanner [])\<lparr>err := Some (UnexpectedEOF ''avx512f.s'')\<rparr>)"
  using scan_stops_at_sentinel [of "example_scanner [sentinel, []]"]
    scan_stops_at_sentinel [of "example_scanner []"]
  by (simp add: example_scanner_def new_scanner_def)

text \<open>
  Claim C4. In a state of a scanner set up by \<open>init\<close>, when the current line is not the
  sentinel and the line pattern finds no match in it, \<open>scan\<close> returns false, consumes
  nothing, and the stored error is the one that carries the file name and the line.
\<close>

theorem scan_reports_unmatched_line:
  assumes "scanner_ok s" and "lines s = l # ls" and "l \<noteq> sentinel"
    and "FindStringSubmatch lineRE_pattern l = None"
  shows "\<exists>s'. scan s = Inr (False, s') \<and> err s' = Some (UnexpectedLine (filename s) l) \<and>
              lines s' = l # ls \<and> filename s' = filename s"
  using assms
  by (cases "err s") (auto simp: scan_def scanner_ok_def split: scan_error.splits)

theorem scan_reports_unmatched_line_witness:
  "\<exists>s'. scan (example_scanner [''VADDPD Z0, Z1'', sentinel]) = Inr (False, s') \<and>
        err s' = Some (UnexpectedLine ''avx512f.s'' ''VADDPD Z0, Z1'') \<and>
        lines s' = [''VADDPD Z0, Z1'', sentinel] \<and> filename s' = ''avx512f.s''"
proof -
  have a: "scanner_ok (example_scanner [''VADDPD Z0, Z1'', sentinel])"
    by (simp add: scanner_ok_def example_scanner_def new_scanner_def)
  have b: "lines (example_scanner [''VADDPD Z0, Z1'', sentinel]) = ''VADDPD Z0, Z1'' # [sentinel]"
    by (simp add: example_scanner_def)
  have c: "''VADDPD Z0, Z1'' \<noteq> sentinel"
    by (simp add: sentinel_def)
  have d: "FindStringSubmatch lineRE_pattern ''VADDPD Z0, Z1'' = None"
    by (simp add: FindStringSubmatch_def lineRE_pattern_def)
  from scan_reports_unmatched_line [OF a b c d] show ?thesis
    by (simp add: example_scanner_def new_scanner_def)
qed




section \<open>The collector\<close>

lemmas run_defs =
  main_def main_steps_def later_steps_def step_init_def step_locateTestDir_def
  step_readExtensions_def step_parseFlags_def step_validateFlags_def step_prepareWorkDir_def
  step_visitWorkDir_def step_collectCounters_def collector_init_def zero_collector_def
  validateFlags_def available_def prepareWorkDir_def fileExists_def collectCounters_def
  testFileScanner_init_def new_scanner_def evaluateCurrent_def mem_sys_def example_world_def
  example_flags_def default_flags_def TrimSuffix_def TrimSpace_def space_runes_def
  starts_with_def Let_def




text \<open>
  After \<open>readExtensions\<close> an extension is available exactly when the directory lists a
  name that is the extension once a trailing \<open>.s\<close> is removed.
\<close>

lemma available_after_fold:
  "available (foldl (\<lambda>m f. m(TrimSuffix f ''.s'' \<mapsto> True)) m files) e =
     (available m e \<or> (\<exists>f \<in> set files. TrimSuffix f ''.s'' = e))"
  by (induction files arbitrary: m) (auto simp: available_def)

lemma readExtensions_available:
  assumes "step_readExtensions sys (snd (collector_init c), w, lg) = Inr (None, (c', w', lg'))"
    and "ReadDir sys w (testDir c) = Inr files"
  shows "available (availableExt c') e = (\<exists>f \<in> set files. TrimSuffix f ''.s'' = e)"
proof -
  from assms have "availableExt c' = foldl (\<lambda>m f. m(TrimSuffix f ''.s'' \<mapsto> True)) Map.empty files"
    by (auto simp: step_readExtensions_def collector_init_def)
  then show ?thesis
    by (simp add: available_after_fold) (simp add: available_def)
qed

lemma collect_loop_result:
  assumes "\<forall>e \<in> set es. fixture_ok sys w (testDir c) e"
  shows "\<exists>c'. collect_loop sys w es (c, lg) = Inr (c', lg @ skip_log sys w (testDir c) es) \<and>
              stats c' = stats c \<and> testDir c' = testDir c"
  using assms
proof (induction es arbitrary: c lg)
  case Nil
  then show ?case by (simp add: skip_log_def)
next
  case (Cons e es)
  let ?fn = "Join sys [testDir c, e @ ''.s'']"
  let ?c1 = "c\<lparr>current := \<lparr>extension = e, scanner = new_scanner ?fn\<rparr>\<rparr>"
  have fn: "filename (new_scanner ?fn) = ?fn" by (simp add: new_scanner_def)
  from Cons.prems have ok: "fixture_ok sys w (testDir c) e"
    and rest: "\<forall>e \<in> set es. fixture_ok sys w (testDir c) e"
    by simp_all
  show ?case
  proof (cases "ReadFile sys w ?fn")
    case (Inl er)
    then have i: "testFileScanner_init (ReadFile sys w) (new_scanner ?fn) =
        Inr (Some er, new_scanner ?fn)"
      by (simp add: testFileScanner_init_def fn)
    let ?c2 = "?c1\<lparr>current := (current ?c1)\<lparr>scanner := new_scanner ?fn\<rparr>\<rparr>"
    have "\<forall>e \<in> set es. fixture_ok sys w (testDir ?c2) e" using rest by simp
    from Cons.IH [OF this, of "lg @ [skip_message e er]"] obtain c' where
      "collect_loop sys w es (?c2, lg @ [skip_message e er]) =
         Inr (c', (lg @ [skip_message e er]) @ skip_log sys w (testDir ?c2) es)"
      "stats c' = stats ?c2" "testDir c' = testDir ?c2"
      by blast
    with i Inl show ?thesis
      by (simp add: skip_log_def)
  next
    case (Inr data)
    with ok have tl: "list_ex tab_initial (split_on newline data)"
      by (simp add: fixture_ok_def)
    let ?sc = "(new_scanner ?fn)\<lparr>lineRE := Some lineRE_pattern,
        lines := dropWhile (\<lambda>l. \<not> tab_initial l) (split_on newline data)\<rparr>"
    have i: "testFileScanner_init (ReadFile sys w) (new_scanner ?fn) = Inr (None, ?sc)"
      using Inr tl by (simp add: testFileScanner_init_def fn skip_header_eq)
    let ?c2 = "?c1\<lparr>current := (current ?c1)\<lparr>scanner := ?sc\<rparr>\<rparr>"
    let ?c3 = "?c2\<lparr>stats := stats ?c2 @ []\<rparr>"
    have "\<forall>e \<in> set es. fixture_ok sys w (testDir ?c3) e" using rest by simp
    from Cons.IH [OF this, of lg] obtain c' where
      "collect_loop sys w es (?c3, lg) = Inr (c', lg @ skip_log sys w (testDir ?c3) es)"
      "stats c' = stats ?c3" "testDir c' = testDir ?c3"
      by blast
    with i Inr show ?thesis
      by (simp add: skip_log_def evaluateCurrent_def)
  qed
qed

lemma collect_loop_stats:
  "collect_loop sys w es (c, lg) = Inr (c', lg') \<Longrightarrow> stats c' = stats c"
proof (induction es arbitrary: c lg)
  case Nil
  then show ?case by simp
next
  case (Cons e es)
  then show ?case
    by (auto simp: Let_def evaluateCurrent_def split: sum.splits option.splits prod.splits)
qed

lemma run_steps_stats:
  "\<forall>(n, f) \<in> set steps. keeps_stats f \<Longrightarrow>
     run_steps steps (c, w, lg) = Returned (c', w', lg') \<Longrightarrow> stats c' = stats c"
proof (induction steps arbitrary: c w lg)
  case Nil
  then show ?case by simp
next
  case (Cons a steps)
  obtain n f where a: "a = (n, f)" by (cases a)
  with Cons.prems(1) have k: "keeps_stats f" and rest: "\<forall>(n, f) \<in> set steps. keeps_stats f"
    by simp_all
  from Cons.prems(2) a obtain c1 w1 lg1 where f: "f (c, w, lg) = Inr (None, (c1, w1, lg1))"
    and r: "run_steps steps (c1, w1, lg1) = Returned (c', w', lg')"
    by (auto split: sum.splits option.splits)
  from k f have "stats c1 = stats c"
    unfolding keeps_stats_def by blast
  with Cons.IH [OF rest r] show ?case by simp
qed

lemma steps_keep_stats:
  "keeps_stats step_init"
  "keeps_stats (step_locateTestDir sys)"
  "keeps_stats (step_readExtensions sys)"
  "keeps_stats (step_parseFlags sys fl)"
  "keeps_stats step_validateFlags"
  "keeps_stats (step_prepareWorkDir sys)"
  "keeps_stats (step_visitWorkDir sys)"
  by (auto simp: keeps_stats_def step_init_def collector_init_def step_locateTestDir_def
        step_readExtensions_def step_parseFlags_def step_validateFlags_def
        step_prepareWorkDir_def step_visitWorkDir_def Let_def
      split: sum.splits prod.splits if_splits)

lemma collect_step_keeps_stats: "keeps_stats (step_collectCounters sys)"
  unfolding keeps_stats_def
proof (intro allI impI)
  fix c w lg r c' w' lg'
  assume "step_collectCounters sys (c, w, lg) = Inr (r, (c', w', lg'))"
  then obtain lg1 where "collect_loop sys w (extensions c) (c, []) = Inr (c', lg1)"
    by (auto simp: step_collectCounters_def collectCounters_def split: sum.splits)
  then show "stats c' = stats c"
    by (rule collect_loop_stats)
qed

lemma main_stats_empty:
  assumes "main sys fl w = Returned (c', w', lg')"
  shows "stats c' = []"
proof -
  have "\<forall>(n, f) \<in> set (main_steps sys fl). keeps_stats f"
    by (simp add: main_steps_def later_steps_def steps_keep_stats collect_step_keeps_stats)
  from run_steps_stats [OF this] assms have "stats c' = stats zero_collector"
    unfolding main_def by blast
  then show ?thesis
    by (simp add: zero_collector_def)
qed

text \<open>
  Claim C1. \<open>evaluateCurrent\<close> returns no statistics and no error in every state of
  the collector. So a run of \<open>collectCounters\<close> that returns, returns nil and leaves the
  statistics of the collector as they were, and it does return whenever no readable
  fixture is without a line that begins with a tab. A run of \<open>main\<close> that returns, for
  any flags and any file system, ends with the empty list of statistics.
\<close>

theorem collectCounters_adds_no_stats:
  "evaluateCurrent c0 = ([], None) \<and>
   (collectCounters sys w c = Inr (r, c', lg) \<longrightarrow>
      r = None \<and> stats c' = stats c \<and> (stats c = [] \<longrightarrow> stats c' = [])) \<and>
   ((\<forall>e \<in> set (extensions c). fixture_ok sys w (testDir c) e) \<longrightarrow>
      (\<exists>c'' lg'. collectCounters sys w c = Inr (None, c'', lg') \<and> stats c'' = stats c)) \<and>
   (main sys fl w = Returned (cm, wm, lgm) \<longrightarrow> stats cm = [])"
proof (intro conjI impI)
  show "evaluateCurrent c0 = ([], None)"
    by (simp add: evaluateCurrent_def)
next
  assume a: "collectCounters sys w c = Inr (r, c', lg)"
  then show "r = None"
    by (auto simp: collectCounters_def split: sum.splits)
  from a have "collect_loop sys w (extensions c) (c, []) = Inr (c', lg)"
    by (auto simp: collectCounters_def split: sum.splits)
  then show s: "stats c' = stats c"
    by (rule collect_loop_stats)
  assume "stats c = []"
  with s show "stats c' = []" by simp
next
  assume "\<forall>e \<in> set (extensions c). fixture_ok sys w (testDir c) e"
  from collect_loop_result [OF this, of "[]"] obtain c'' where
    "collect_loop sys w (extensions c) (c, []) =
       Inr (c'', [] @ skip_log sys w (testDir c) (extensions c))"
    "stats c'' = stats c"
    by blast
  then have "collectCounters sys w c = Inr (None, c'', skip_log sys w (testDir c) (extensions c)) \<and>
      stats c'' = stats c"
    by (simp add: collectCounters_def)
  then show "\<exists>c'' lg'. collectCounters sys w c = Inr (None, c'', lg') \<and> stats c'' = stats c"
    by (intro exI)
next
  assume "main sys fl w = Returned (cm, wm, lgm)"
  then show "stats cm = []"
    by (rule main_stats_empty)
qed

theorem collectCounters_adds_no_stats_witness:
  "(\<exists>c'' lg'. collectCounters mem_sys example_files (example_collector [''avx512f'', ''avx512bw'']) =
       Inr (None, c'', lg') \<and> stats c'' = []) \<and>
   (\<exists>c w. main mem_sys (example_flags ''avx512f'') example_world = Returned (c, w, []) \<and>
      stats c = [])"
proof -
  have "\<exists>c w. main mem_sys (example_flags ''avx512f'') example_world = Returned (c, w, [])"
    by (simp add: run_defs)
  then obtain c w where "main mem_sys (example_flags ''avx512f'') example_world = Returned (c, w, [])"
    by blast
  with collectCounters_adds_no_stats
    [where sys = mem_sys and w = example_world and fl = "example_flags ''avx512f''"
       and cm = c and wm = w and lgm = "[]"]
  have m: "\<exists>c w. main mem_sys (example_flags ''avx512f'') example_world = Returned (c, w, []) \<and>
      stats c = []"
    by blast
  have "\<forall>e \<in> set (extensions (example_collector [''avx512f'', ''avx512bw''])).
      fixture_ok mem_sys example_files (testDir (example_collector [''avx512f'', ''avx512bw''])) e"
    by (simp add: example_collector_def fixture_ok_def mem_sys_def example_files_def
          tab_initial_def)
  with collectCounters_adds_no_stats
    [of "example_collector []" mem_sys example_files "example_collector [''avx512f'', ''avx512bw'']"]
  have "\<exists>c'' lg'. collectCounters mem_sys example_files
      (example_collector [''avx512f'', ''avx512bw'']) = Inr (None, c'', lg') \<and> stats c'' = []"
    by (simp add: example_collector_def)
  with m show ?thesis by (intro conjI)
qed

text \<open>
  Claim C7. The claim asks that a fixture that cannot be scanned is logged and only
  its extension skipped. With the extensions \<open>avx512cd\<close> and \<open>avx512f\<close>, where the file
  of the first is readable and empty and the file of the second is well formed,
  \<open>init\<close> panics on the first file and \<open>collectCounters\<close> ends there: nothing is logged
  and the second extension is not reached.
\<close>

theorem collectCounters_empty_fixture_panics:
  "collectCounters mem_sys example_files (example_collector [''avx512cd'', ''avx512f'']) =
     Inl IndexOutOfRange"
  by (simp add: collectCounters_def example_collector_def mem_sys_def example_files_def
        new_scanner_def testFileScanner_init_def)

section \<open>Three runs of main\<close>

lemma main_example_fatal:
  "\<exists>st. main mem_sys (example_flags ''avx512f, avx512bw'') example_world =
     Fatal ''validate command-line args'' (FlagError (UnavailableExtension ''avx512bw'')) st \<and>
     snd st = (example_world, [])"
  by (simp add: run_defs)

lemma main_example_returns:
  "\<exists>c w. main mem_sys (example_flags ''avx512f'') example_world = Returned (c, w, []) \<and>
     stats c = []"
  by (simp add: run_defs)

lemma main_example_panics:
  "main mem_sys (example_flags ''avx512cd, avx512f'') example_world = Panicked IndexOutOfRange"
  by (simp add: run_defs)
section \<open>The probe driver\<close>













section \<open>The operand patterns\<close>

lemma concI: "u \<in> A \<Longrightarrow> v \<in> B \<Longrightarrow> u @ v \<in> conc A B"
  by (auto simp: conc_def)

lemma conc_litI: "v \<in> B \<Longrightarrow> c # v \<in> conc {[c]} B"
  using concI [of "[c]" "{[c]}" v B] by simp

lemma concE:
  assumes "w \<in> conc A B"
  obtains u v where "w = u @ v" "u \<in> A" "v \<in> B"
  using assms by (auto simp: conc_def)

lemma conc_litE:
  assumes "w \<in> conc {[c]} B"
  obtains v where "w = c # v" "v \<in> B"
  using assms by (auto simp: conc_def)

lemma lang_dispRE: "(d \<in> lang dispRE) = displacement d"
proof
  assume "d \<in> lang dispRE"
  then have "d = [] \<or> d \<in> conc (insert [] {[CHR ''-'']}) (plus_lang PerlDigit)"
    by (simp add: dispRE_def)
  then show "displacement d"
  proof
    assume "d = []"
    then show ?thesis by (simp add: displacement_def)
  next
    assume "d \<in> conc (insert [] {[CHR ''-'']}) (plus_lang PerlDigit)"
    then obtain u v where uv: "d = u @ v" "u = [] \<or> u = [CHR ''-'']" "v \<in> plus_lang PerlDigit"
      by (auto simp: conc_def)
    from uv(2) show ?thesis
    proof
      assume "u = []"
      with uv show ?thesis by (simp add: displacement_def)
    next
      assume "u = [CHR ''-'']"
      with uv show ?thesis by (simp add: displacement_def)
    qed
  qed
next
  assume "displacement d"
  then consider "d = []" | "d \<in> plus_lang PerlDigit"
    | "d \<noteq> []" "hd d = CHR ''-''" "tl d \<in> plus_lang PerlDigit"
    unfolding displacement_def by blast
  then show "d \<in> lang dispRE"
  proof cases
    case 1
    then show ?thesis by (simp add: dispRE_def)
  next
    case 2
    then have "[] @ d \<in> conc (insert [] {[CHR ''-'']}) (plus_lang PerlDigit)"
      by (intro concI) simp_all
    then show ?thesis by (simp add: dispRE_def)
  next
    case 3
    then have "[CHR ''-''] @ tl d \<in> conc (insert [] {[CHR ''-'']}) (plus_lang PerlDigit)"
      by (intro concI) simp_all
    moreover from 3 have "[CHR ''-''] @ tl d = d"
      by (cases d) simp_all
    ultimately show ?thesis by (simp add: dispRE_def)
  qed
qed

lemma scale_lang: "scale k \<Longrightarrow> [k] \<in> {[x] | x. cls_mem (OneOf ''1248'') x}"
  by (simp add: scale_def)

lemma memArg_plain_member:
  assumes "displacement d" and "reg_name b"
  shows "d @ ''('' @ b @ '')'' \<in> lang memArgRE_pattern"
proof -
  have "'')'' @ [] \<in> conc {'')''} (insert [] (lang (cat [Lit CHR ''('', Plus PerlWord,
      Lit CHR ''*'', Cls (OneOf ''1248''), Lit CHR '')''])))"
    by (intro concI) simp_all
  with assms(2) have "b @ '')'' \<in> conc (plus_lang PerlWord) (conc {'')''}
      (insert [] (lang (cat [Lit CHR ''('', Plus PerlWord,
      Lit CHR ''*'', Cls (OneOf ''1248''), Lit CHR '')'']))))"
    unfolding reg_name_def by (intro concI) simp_all
  then have "CHR ''('' # b @ '')'' \<in> conc {''(''} (conc (plus_lang PerlWord) (conc {'')''}
      (insert [] (lang (cat [Lit CHR ''('', Plus PerlWord,
      Lit CHR ''*'', Cls (OneOf ''1248''), Lit CHR '')''])))))"
    by (rule conc_litI)
  with assms(1) have "d @ CHR ''('' # b @ '')'' \<in> conc (lang dispRE) (conc {''(''}
      (conc (plus_lang PerlWord) (conc {'')''}
      (insert [] (lang (cat [Lit CHR ''('', Plus PerlWord,
      Lit CHR ''*'', Cls (OneOf ''1248''), Lit CHR '')'']))))))"
    by (intro concI) (simp_all add: lang_dispRE)
  then show ?thesis
    by (simp add: memArgRE_pattern_def)
qed

lemma index_member:
  assumes "reg_name i" and "scale k"
  shows "''('' @ i @ ''*'' @ [k] @ '')'' \<in>
           lang (cat [Lit CHR ''('', Plus PerlWord, Lit CHR ''*'', Cls (OneOf ''1248''),
                      Lit CHR '')''])"
proof -
  from assms(2) have "[k] @ '')'' \<in> conc {[x] | x. cls_mem (OneOf ''1248'') x} {'')''}"
    by (intro concI scale_lang) simp_all
  then have "CHR ''*'' # [k] @ '')'' \<in>
      conc {''*''} (conc {[x] | x. cls_mem (OneOf ''1248'') x} {'')''})"
    by (rule conc_litI)
  with assms(1) have "i @ CHR ''*'' # [k] @ '')'' \<in> conc (plus_lang PerlWord)
      (conc {''*''} (conc {[x] | x. cls_mem (OneOf ''1248'') x} {'')''}))"
    unfolding reg_name_def by (intro concI)
  then have "CHR ''('' # i @ CHR ''*'' # [k] @ '')'' \<in> conc {''(''} (conc (plus_lang PerlWord)
      (conc {''*''} (conc {[x] | x. cls_mem (OneOf ''1248'') x} {'')''})))"
    by (rule conc_litI)
  then show ?thesis by simp
qed

lemma memArg_indexed_member:
  assumes "displacement d" and "reg_name b" and "reg_name i" and "scale k"
  shows "d @ ''('' @ b @ '')('' @ i @ ''*'' @ [k] @ '')'' \<in> lang memArgRE_pattern"
proof -
  let ?ix = "cat [Lit CHR ''('', Plus PerlWord, Lit CHR ''*'', Cls (OneOf ''1248''),
      Lit CHR '')'']"
  have "''('' @ i @ ''*'' @ [k] @ '')'' \<in> insert [] (lang ?ix)"
    using index_member [OF assms(3,4)] by (simp del: cat.simps lang.simps)
  then have "CHR '')'' # ''('' @ i @ ''*'' @ [k] @ '')'' \<in> conc {'')''} (insert [] (lang ?ix))"
    by (rule conc_litI)
  with assms(2) have "b @ CHR '')'' # ''('' @ i @ ''*'' @ [k] @ '')'' \<in>
      conc (plus_lang PerlWord) (conc {'')''} (insert [] (lang ?ix)))"
    unfolding reg_name_def by (intro concI)
  then have "CHR ''('' # b @ CHR '')'' # ''('' @ i @ ''*'' @ [k] @ '')'' \<in>
      conc {''(''} (conc (plus_lang PerlWord) (conc {'')''} (insert [] (lang ?ix))))"
    by (rule conc_litI)
  with assms(1) have "d @ CHR ''('' # b @ CHR '')'' # ''('' @ i @ ''*'' @ [k] @ '')'' \<in>
      conc (lang dispRE) (conc {''(''} (conc (plus_lang PerlWord)
        (conc {'')''} (insert [] (lang ?ix)))))"
    by (intro concI) (simp_all add: lang_dispRE)
  then show ?thesis
    by (simp add: memArgRE_pattern_def)
qed

lemma vmemArg_member:
  assumes "displacement d" and "reg_name b" and "x \<in> set ''XYZ''"
    and "ds \<in> plus_lang PerlDigit" and "scale k"
  shows "d @ ''('' @ b @ '')('' @ (x # ds) @ ''*'' @ [k] @ '')'' \<in> lang vmemArgRE_pattern"
proof -
  let ?K = "{[x] | x. cls_mem (OneOf ''1248'') x}"
  let ?V = "{[x] | x. cls_mem (OneOf ''XYZ'') x}"
  from assms(5) have "[k] @ '')'' \<in> conc ?K {'')''}"
    by (intro concI scale_lang) simp_all
  then have "CHR ''*'' # [k] @ '')'' \<in> conc {''*''} (conc ?K {'')''})"
    by (rule conc_litI)
  with assms(4) have dk: "ds @ CHR ''*'' # [k] @ '')'' \<in>
      conc (plus_lang PerlDigit) (conc {''*''} (conc ?K {'')''}))"
    by (intro concI)
  from assms(3) have "[x] \<in> ?V" by simp
  then have "[x] @ ds @ CHR ''*'' # [k] @ '')'' \<in>
      conc ?V (conc (plus_lang PerlDigit) (conc {''*''} (conc ?K {'')''})))"
    using dk by (rule concI)
  then have "CHR ''('' # [x] @ ds @ CHR ''*'' # [k] @ '')'' \<in>
      conc {''(''} (conc ?V (conc (plus_lang PerlDigit) (conc {''*''} (conc ?K {'')''}))))"
    by (rule conc_litI)
  then have "CHR '')'' # CHR ''('' # [x] @ ds @ CHR ''*'' # [k] @ '')'' \<in>
      conc {'')''} (conc {''(''} (conc ?V (conc (plus_lang PerlDigit)
        (conc {''*''} (conc ?K {'')''})))))"
    by (rule conc_litI)
  with assms(2) have "b @ CHR '')'' # CHR ''('' # [x] @ ds @ CHR ''*'' # [k] @ '')'' \<in>
      conc (plus_lang PerlWord) (conc {'')''} (conc {''(''} (conc ?V (conc (plus_lang PerlDigit)
        (conc {''*''} (conc ?K {'')''}))))))"
    unfolding reg_name_def by (intro concI)
  then have "CHR ''('' # b @ CHR '')'' # CHR ''('' # [x] @ ds @ CHR ''*'' # [k] @ '')'' \<in>
      conc {''(''} (conc (plus_lang PerlWord) (conc {'')''} (conc {''(''} (conc ?V
        (conc (plus_lang PerlDigit) (conc {''*''} (conc ?K {'')''})))))))"
    by (rule conc_litI)
  with assms(1) have
    "d @ CHR ''('' # b @ CHR '')'' # CHR ''('' # [x] @ ds @ CHR ''*'' # [k] @ '')'' \<in>
      conc (lang dispRE) (conc {''(''} (conc (plus_lang PerlWord) (conc {'')''} (conc {''(''}
        (conc ?V (conc (plus_lang PerlDigit) (conc {''*''} (conc ?K {'')''}))))))))"
    by (intro concI) (simp_all add: lang_dispRE)
  then show ?thesis
    by (simp add: vmemArgRE_pattern_def)
qed

lemma vmemArg_shape:
  assumes "v \<in> lang vmemArgRE_pattern"
  shows "\<exists>d b x ds k. v = d @ ''('' @ b @ '')('' @ (x # ds) @ ''*'' @ [k] @ '')'' \<and>
           displacement d \<and> reg_name b \<and> x \<in> set ''XYZ'' \<and>
           ds \<in> plus_lang PerlDigit \<and> scale k"
proof -
  let ?K = "{[x] | x. cls_mem (OneOf ''1248'') x}"
  let ?V = "{[x] | x. cls_mem (OneOf ''XYZ'') x}"
  from assms have "v \<in> conc (lang dispRE) (conc {''(''} (conc (plus_lang PerlWord)
      (conc {'')''} (conc {''(''} (conc ?V (conc (plus_lang PerlDigit)
        (conc {''*''} (conc ?K {'')''}))))))))"
    by (simp add: vmemArgRE_pattern_def)
  then obtain d v1 where 1: "v = d @ v1" "d \<in> lang dispRE"
    "v1 \<in> conc {''(''} (conc (plus_lang PerlWord)
      (conc {'')''} (conc {''(''} (conc ?V (conc (plus_lang PerlDigit)
        (conc {''*''} (conc ?K {'')''})))))))"
    by (rule concE)
  from 1(3) obtain v2 where 2: "v1 = CHR ''('' # v2"
    "v2 \<in> conc (plus_lang PerlWord)
      (conc {'')''} (conc {''(''} (conc ?V (conc (plus_lang PerlDigit)
        (conc {''*''} (conc ?K {'')''}))))))"
    by (rule conc_litE)
  from 2(2) obtain b v3 where 3: "v2 = b @ v3" "b \<in> plus_lang PerlWord"
    "v3 \<in> conc {'')''} (conc {''(''} (conc ?V (conc (plus_lang PerlDigit)
        (conc {''*''} (conc ?K {'')''})))))"
    by (rule concE)
  from 3(3) obtain v4 where 4: "v3 = CHR '')'' # v4"
    "v4 \<in> conc {''(''} (conc ?V (conc (plus_lang PerlDigit)
        (conc {''*''} (conc ?K {'')''}))))"
    by (rule conc_litE)
  from 4(2) obtain v5 where 5: "v4 = CHR ''('' # v5"
    "v5 \<in> conc ?V (conc (plus_lang PerlDigit) (conc {''*''} (conc ?K {'')''})))"
    by (rule conc_litE)
  from 5(2) obtain xs v6 where 6: "v5 = xs @ v6" "xs \<in> ?V"
    "v6 \<in> conc (plus_lang PerlDigit) (conc {''*''} (conc ?K {'')''}))"
    by (rule concE)
  from 6(2) obtain x where x: "xs = [x]" "x \<in> set ''XYZ''"
    by auto
  from 6(3) obtain ds v7 where 7: "v6 = ds @ v7" "ds \<in> plus_lang PerlDigit"
    "v7 \<in> conc {''*''} (conc ?K {'')''})"
    by (rule concE)
  from 7(3) obtain v8 where 8: "v7 = CHR ''*'' # v8" "v8 \<in> conc ?K {'')''}"
    by (rule conc_litE)
  from 8(2) obtain ks v9 where 9: "v8 = ks @ v9" "ks \<in> ?K" "v9 \<in> {'')''}"
    by (rule concE)
  from 9(2) obtain k where k: "ks = [k]" "scale k"
    by (auto simp: scale_def)
  have "v = d @ ''('' @ b @ '')('' @ (x # ds) @ ''*'' @ [k] @ '')''"
    using 1(1) 2(1) 3(1) 4(1) 5(1) 6(1) x(1) 7(1) 8(1) 9(1,3) k(1) by simp
  moreover have "displacement d" using 1(2) by (simp add: lang_dispRE)
  moreover have "reg_name b" using 3(2) by (simp add: reg_name_def)
  ultimately show ?thesis
    using x(2) 7(2) k(2)
    by (intro exI [of _ d] exI [of _ b] exI [of _ x] exI [of _ ds] exI [of _ k] conjI)
qed

lemma first_occurrence_unique:
  "c \<notin> set xs \<Longrightarrow> c \<notin> set xs' \<Longrightarrow> xs @ c # ys = xs' @ c # ys' \<Longrightarrow>
     xs = xs' \<and> ys = ys'"
proof (induction xs arbitrary: xs')
  case Nil
  then show ?case by (cases xs') auto
next
  case (Cons a xs)
  then show ?case by (cases xs') auto
qed

text \<open>The parentheses and the star occur in no displacement and in no register name.\<close>

lemma word_no_special:
  "w \<in> plus_lang PerlWord \<Longrightarrow> c \<in> set ''()*'' \<Longrightarrow> c \<notin> set w"
  by (auto simp: plus_lang_def in_range_def)

lemma digits_no_special:
  "w \<in> plus_lang PerlDigit \<Longrightarrow> c \<in> set ''()*'' \<Longrightarrow> c \<notin> set w"
  by (auto simp: plus_lang_def in_range_def)

lemma displacement_no_special:
  assumes "displacement d" and "c \<in> set ''()*''"
  shows "c \<notin> set d"
proof -
  from assms(1) consider "d = []" | "d \<in> plus_lang PerlDigit"
    | "d \<noteq> []" "hd d = CHR ''-''" "tl d \<in> plus_lang PerlDigit"
    unfolding displacement_def by blast
  then show ?thesis
  proof cases
    case 1
    then show ?thesis by simp
  next
    case 2
    then show ?thesis using assms(2) by (rule digits_no_special)
  next
    case 3
    from 3(3) assms(2) have "c \<notin> set (tl d)" by (rule digits_no_special)
    moreover from 3(1,2) have "d = CHR ''-'' # tl d" by (cases d) simp_all
    then have "set d = insert CHR ''-'' (set (tl d))"
      by (metis list.simps(15))
    ultimately show ?thesis using assms(2) by auto
  qed
qed

lemma scale_no_special: "scale k \<Longrightarrow> c \<in> set ''()*'' \<Longrightarrow> c \<noteq> k"
  by (auto simp: scale_def)

lemma vector_no_special: "x \<in> set ''XYZ'' \<Longrightarrow> c \<in> set ''()*'' \<Longrightarrow> c \<noteq> x"
  by auto

lemma count_open_vmem:
  assumes "v \<in> lang vmemArgRE_pattern"
  shows "count_list v CHR ''('' = 2" and "count_list v CHR '')'' = 2"
proof -
  from vmemArg_shape [OF assms] obtain d b x ds k where
    v: "v = d @ ''('' @ b @ '')('' @ (x # ds) @ ''*'' @ [k] @ '')''"
    and p: "displacement d" "reg_name b" "x \<in> set ''XYZ''" "ds \<in> plus_lang PerlDigit" "scale k"
    by blast
  have o: "CHR ''('' \<notin> set d" "CHR ''('' \<notin> set b" "CHR ''('' \<notin> set ds"
    "CHR ''('' \<noteq> x" "CHR ''('' \<noteq> k"
    using p displacement_no_special [of d "CHR ''(''"] word_no_special [of b "CHR ''(''"]
      digits_no_special [of ds "CHR ''(''"] vector_no_special [of x "CHR ''(''"]
      scale_no_special [of k "CHR ''(''"]
    by (simp_all add: reg_name_def)
  have c: "CHR '')'' \<notin> set d" "CHR '')'' \<notin> set b" "CHR '')'' \<notin> set ds"
    "CHR '')'' \<noteq> x" "CHR '')'' \<noteq> k"
    using p displacement_no_special [of d "CHR '')''"] word_no_special [of b "CHR '')''"]
      digits_no_special [of ds "CHR '')''"] vector_no_special [of x "CHR '')''"]
      scale_no_special [of k "CHR '')''"]
    by (simp_all add: reg_name_def)
  show "count_list v CHR ''('' = 2"
    using o by (simp add: v)
  show "count_list v CHR '')'' = 2"
    using c by (simp add: v)
qed

lemma plain_shape_not_vector:
  assumes "displacement d" and "reg_name b"
  shows "\<not> MatchString vmemArgRE_pattern (d @ ''('' @ b @ '')'')"
proof
  assume "MatchString vmemArgRE_pattern (d @ ''('' @ b @ '')'')"
  then obtain u v w where s: "d @ ''('' @ b @ '')'' = u @ v @ w" and v: "v \<in> lang vmemArgRE_pattern"
    unfolding MatchString_iff by blast
  have "CHR ''('' \<notin> set d" "CHR ''('' \<notin> set b"
    using assms displacement_no_special [of d "CHR ''(''"] word_no_special [of b "CHR ''(''"]
    by (simp_all add: reg_name_def)
  then have "count_list (d @ ''('' @ b @ '')'') CHR ''('' = 1"
    by simp
  then have "count_list (u @ v @ w) CHR ''('' = 1"
    by (simp only: s)
  then show False
    using count_open_vmem(1) [OF v] by simp
qed

lemma indexed_shape_vector:
  assumes "displacement d" and "reg_name b" and "reg_name i" and "scale k"
    and m: "MatchString vmemArgRE_pattern (d @ ''('' @ b @ '')('' @ i @ ''*'' @ [k] @ '')'')"
  shows "vector_reg i"
proof -
  let ?s = "d @ ''('' @ b @ '')('' @ i @ ''*'' @ [k] @ '')''"
  from m obtain u v w where s: "?s = u @ v @ w" and v: "v \<in> lang vmemArgRE_pattern"
    unfolding MatchString_iff by blast
  from vmemArg_shape [OF v] obtain d' b' x ds k' where
    vs: "v = d' @ ''('' @ b' @ '')('' @ (x # ds) @ ''*'' @ [k'] @ '')''"
    and p: "displacement d'" "reg_name b'" "x \<in> set ''XYZ''" "ds \<in> plus_lang PerlDigit"
      "scale k'"
    by blast
  have c: "CHR '')'' \<notin> set d" "CHR '')'' \<notin> set b" "CHR '')'' \<notin> set i" "CHR '')'' \<noteq> k"
    using assms(1-4) displacement_no_special [of d "CHR '')''"]
      word_no_special [of b "CHR '')''"] word_no_special [of i "CHR '')''"]
      scale_no_special [of k "CHR '')''"]
    by (simp_all add: reg_name_def)
  then have "count_list ?s CHR '')'' = 2" by simp
  then have "count_list (u @ v @ w) CHR '')'' = 2" by (simp only: s)
  then have "count_list u CHR '')'' = 0"
    using count_open_vmem(2) [OF v] by simp
  then have cu: "CHR '')'' \<notin> set u" by (simp add: count_list_0_iff)
  have c': "CHR '')'' \<notin> set d'" "CHR '')'' \<notin> set b'"
    using p displacement_no_special [of d' "CHR '')''"] word_no_special [of b' "CHR '')''"]
    by (simp_all add: reg_name_def)
  have l: "?s = (d @ ''('' @ b) @ CHR '')'' # (''('' @ i @ ''*'' @ [k] @ '')'')"
    by simp
  have r: "u @ v @ w = (u @ d' @ ''('' @ b') @ CHR '')'' #
      (''('' @ (x # ds) @ ''*'' @ [k'] @ '')'' @ w)"
    by (simp add: vs)
  have eq: "(d @ ''('' @ b) @ CHR '')'' # (''('' @ i @ ''*'' @ [k] @ '')'') =
      (u @ d' @ ''('' @ b') @ CHR '')'' # (''('' @ (x # ds) @ ''*'' @ [k'] @ '')'' @ w)"
    using s l r by simp
  have n1: "CHR '')'' \<notin> set (d @ ''('' @ b)" using c by simp
  have n2: "CHR '')'' \<notin> set (u @ d' @ ''('' @ b')" using cu c' by simp
  from first_occurrence_unique [OF n1 n2 eq]
  have "''('' @ i @ ''*'' @ [k] @ '')'' = ''('' @ (x # ds) @ ''*'' @ [k'] @ '')'' @ w"
    by (rule conjunct2)
  then have e: "i @ CHR ''*'' # ([k] @ '')'') = (x # ds) @ CHR ''*'' # ([k'] @ '')'' @ w)"
    by simp
  have s1: "CHR ''*'' \<notin> set i"
    using assms(3) word_no_special [of i "CHR ''*''"] by (simp add: reg_name_def)
  have s2: "CHR ''*'' \<notin> set (x # ds)"
    using p(3,4) digits_no_special [of ds "CHR ''*''"] vector_no_special [of x "CHR ''*''"]
    by simp
  from first_occurrence_unique [OF s1 s2 e] have "i = x # ds"
    by (rule conjunct1)
  with p(3,4) show ?thesis
    by (simp add: vector_reg_def)
qed

lemma vector_shape_matches:
  assumes "displacement d" and "reg_name b" and "vector_reg i" and "scale k"
  shows "MatchString vmemArgRE_pattern (d @ ''('' @ b @ '')('' @ i @ ''*'' @ [k] @ '')'')"
proof -
  from assms(3) obtain x ds where i: "i = x # ds" "x \<in> set ''XYZ''" "ds \<in> plus_lang PerlDigit"
    by (cases i) (auto simp: vector_reg_def)
  have "d @ ''('' @ b @ '')('' @ (x # ds) @ ''*'' @ [k] @ '')'' \<in> lang vmemArgRE_pattern"
    using assms(1,2) i(2,3) assms(4) by (rule vmemArg_member)
  then have "\<exists>u v w. d @ ''('' @ b @ '')('' @ i @ ''*'' @ [k] @ '')'' = u @ v @ w \<and>
      v \<in> lang vmemArgRE_pattern"
    unfolding i(1)
    by (intro exI [of _ "[]"] exI [of _ "d @ ''('' @ b @ '')('' @ (x # ds) @ ''*'' @ [k] @ '')''"])
      simp
  then show ?thesis
    by (simp only: MatchString_iff)
qed

lemma memory_shapes_match:
  assumes "displacement d" and "reg_name b"
  shows "MatchString memArgRE_pattern (d @ ''('' @ b @ '')'')"
    and "reg_name i \<Longrightarrow> scale k \<Longrightarrow>
         MatchString memArgRE_pattern (d @ ''('' @ b @ '')('' @ i @ ''*'' @ [k] @ '')'')"
proof -
  have "d @ ''('' @ b @ '')'' \<in> lang memArgRE_pattern"
    using assms by (rule memArg_plain_member)
  then have "\<exists>u v w. d @ ''('' @ b @ '')'' = u @ v @ w \<and> v \<in> lang memArgRE_pattern"
    by (intro exI [of _ "[]"] exI [of _ "d @ ''('' @ b @ '')''"]) simp
  then show "MatchString memArgRE_pattern (d @ ''('' @ b @ '')'')"
    by (simp only: MatchString_iff)
next
  assume "reg_name i" and "scale k"
  with assms have "d @ ''('' @ b @ '')('' @ i @ ''*'' @ [k] @ '')'' \<in> lang memArgRE_pattern"
    by (rule memArg_indexed_member)
  then have "\<exists>u v w. d @ ''('' @ b @ '')('' @ i @ ''*'' @ [k] @ '')'' = u @ v @ w \<and>
      v \<in> lang memArgRE_pattern"
    by (intro exI [of _ "[]"] exI [of _ "d @ ''('' @ b @ '')('' @ i @ ''*'' @ [k] @ '')''"]) simp
  then show "MatchString memArgRE_pattern (d @ ''('' @ b @ '')('' @ i @ ''*'' @ [k] @ '')'')"
    by (simp only: MatchString_iff)
qed

lemma classify_examples:
  "classify ''(AX)'' = MemoryOperand"
  "classify ''8(AX)(X1*4)'' = VectorMemoryOperand"
  "classify ''8(AX)(R1*4)'' = MemoryOperand"
  "classify ''AX'' = PlainOperand"
  by (simp_all add: classify_def MatchString_def memArgRE_pattern_def vmemArgRE_pattern_def
        dispRE_def in_range_def)

text \<open>
  Claim C2, as stated, fails: the operand \<open>8(AX)(XA*4)\<close> has the displacement, the
  base and the index suffix, and its index register \<open>XA\<close> begins with X, but the
  stricter pattern asks for digits after the letter and does not match.
\<close>

theorem classify_index_letter_counterexample:
  "displacement ''8'' \<and> reg_name ''AX'' \<and> reg_name ''XA'' \<and> scale CHR ''4'' \<and>
   hd ''XA'' = CHR ''X'' \<and> classify (''8'' @ ''('' @ ''AX'' @ '')('' @ ''XA'' @ ''*'' @ [CHR ''4''] @ '')'') =
     MemoryOperand"
  by (simp add: classify_def MatchString_def memArgRE_pattern_def vmemArgRE_pattern_def
        dispRE_def in_range_def displacement_def reg_name_def scale_def plus_lang_def)

text \<open>
  Claim C2, amended. An operand made of an optional displacement, a base register in
  parentheses and an optional index suffix (a register, a star and a scale of 1, 2, 4
  or 8 in parentheses) is a memory operand; it is a vector memory operand exactly when
  the suffix is there and its index register is X, Y or Z followed by one or more
  decimal digits. An operand is plain exactly when neither pattern matches it. The four
  examples of the specification get their classes.
\<close>

theorem classify_memory_operands:
  "(displacement d \<longrightarrow> reg_name b \<longrightarrow>
      classify (d @ ''('' @ b @ '')'') = MemoryOperand \<and>
      (reg_name i \<longrightarrow> scale k \<longrightarrow>
         classify (d @ ''('' @ b @ '')('' @ i @ ''*'' @ [k] @ '')'') =
           (if vector_reg i then VectorMemoryOperand else MemoryOperand))) \<and>
   ((classify s = PlainOperand) =
      (\<not> MatchString memArgRE_pattern s \<and> \<not> MatchString vmemArgRE_pattern s)) \<and>
   classify ''(AX)'' = MemoryOperand \<and>
   classify ''8(AX)(X1*4)'' = VectorMemoryOperand \<and>
   classify ''8(AX)(R1*4)'' = MemoryOperand \<and>
   classify ''AX'' = PlainOperand"
proof (intro conjI impI)
  assume a: "displacement d" "reg_name b"
  show "classify (d @ ''('' @ b @ '')'') = MemoryOperand"
    using plain_shape_not_vector [OF a] memory_shapes_match(1) [OF a]
    by (simp add: classify_def)
  assume c: "reg_name i" "scale k"
  show "classify (d @ ''('' @ b @ '')('' @ i @ ''*'' @ [k] @ '')'') =
           (if vector_reg i then VectorMemoryOperand else MemoryOperand)"
  proof (cases "vector_reg i")
    case True
    from vector_shape_matches [OF a True c(2)] True show ?thesis
      by (simp add: classify_def)
  next
    case False
    with indexed_shape_vector [OF a c] have
      "\<not> MatchString vmemArgRE_pattern (d @ ''('' @ b @ '')('' @ i @ ''*'' @ [k] @ '')'')"
      by blast
    with memory_shapes_match(2) [OF a c] False show ?thesis
      by (simp add: classify_def)
  qed
next
  show "(classify s = PlainOperand) =
      (\<not> MatchString memArgRE_pattern s \<and> \<not> MatchString vmemArgRE_pattern s)"
    by (simp add: classify_def)
qed (rule classify_examples)+

theorem classify_memory_operands_witness:
  "classify (''-16'' @ ''('' @ ''BX'' @ '')'') = MemoryOperand \<and>
   classify (''-16'' @ ''('' @ ''BX'' @ '')('' @ ''Z31'' @ ''*'' @ [CHR ''8''] @ '')'') =
     VectorMemoryOperand \<and>
   classify (''-16'' @ ''('' @ ''BX'' @ '')('' @ ''R10'' @ ''*'' @ [CHR ''8''] @ '')'') =
     MemoryOperand"
proof -
  have d: "displacement ''-16''"
    by (simp add: displacement_def plus_lang_def in_range_def)
  have b: "reg_name ''BX''" and z: "reg_name ''Z31''" and r: "reg_name ''R10''"
    by (simp_all add: reg_name_def plus_lang_def in_range_def)
  have k: "scale CHR ''8''"
    by (simp add: scale_def)
  have vz: "vector_reg ''Z31''" and vr: "\<not> vector_reg ''R10''"
    by (simp_all add: vector_reg_def plus_lang_def in_range_def)
  from classify_memory_operands [of "''-16''" "''BX''" "''Z31''" "CHR ''8''" "[]"]
    classify_memory_operands [of "''-16''" "''BX''" "''R10''" "CHR ''8''" "[]"]
    d b z r k vz vr
  show ?thesis by simp
qed

end
